theory Spec2Isabelle
  imports Complex_Main "HOL-Library.AList" "HOL-Library.Log_Nat" "HOL-Library.Multiset"
    "HOL-Library.Char_ord" "HOL-Library.List_Lexorder" "HOL-Library.Product_Lexorder"
begin

section \<open>Python values and dictionaries\<close>

text \<open>
  The values a YAML configuration can hold, as far as \<^verbatim>\<open>main.py\<close> inspects them. A dictionary
  is an association list in insertion order whose keys are strings; Python dictionaries have
  unique keys, which the theorems below state as \<open>distinct (map fst d)\<close> where it matters.
\<close>

datatype pyval =
    PNone
  | PBool bool
  | PInt int
  | PStr string
  | PList "pyval list"
  | PDict "(string \<times> pyval) list"

datatype py_error = AttributeError | KeyError | TypeError | ValueError | NotModelled

type_synonym pydict = "(string \<times> pyval) list"

text \<open>Python truthiness, as used by \<^verbatim>\<open>and\<close>, \<^verbatim>\<open>or\<close> and \<^verbatim>\<open>if\<close>.\<close>

fun truthy :: "pyval \<Rightarrow> bool" where
  "truthy PNone = False"
| "truthy (PBool b) = b"
| "truthy (PInt i) = (i \<noteq> 0)"
| "truthy (PStr s) = (s \<noteq> [])"
| "truthy (PList xs) = (xs \<noteq> [])"
| "truthy (PDict d) = (d \<noteq> [])"

text \<open>\<^verbatim>\<open>d.get(key, default)\<close> on a dictionary.\<close>

definition dict_get :: "pydict \<Rightarrow> string \<Rightarrow> pyval \<Rightarrow> pyval" where
  "dict_get d k dflt = (case map_of d k of None \<Rightarrow> dflt | Some v \<Rightarrow> v)"

text \<open>\<^verbatim>\<open>v.get(key, default)\<close> on any value: only a dictionary has the method.\<close>

fun py_get :: "pyval \<Rightarrow> string \<Rightarrow> pyval \<Rightarrow> py_error + pyval" where
  "py_get (PDict d) k dflt = Inr (dict_get d k dflt)"
| "py_get _ k dflt = Inl AttributeError"

text \<open>\<^verbatim>\<open>v.items()\<close>.\<close>

fun py_items :: "pyval \<Rightarrow> py_error + pydict" where
  "py_items (PDict d) = Inr d"
| "py_items _ = Inl AttributeError"

text \<open>\<^verbatim>\<open>sub in s\<close> on strings: \<open>sub\<close> occurs in \<open>s\<close> as a contiguous substring.\<close>

fun starts_with :: "string \<Rightarrow> string \<Rightarrow> bool" where
  "starts_with [] s = True"
| "starts_with (c # cs) [] = False"
| "starts_with (c # cs) (d # ds) = (c = d \<and> starts_with cs ds)"

fun str_in :: "string \<Rightarrow> string \<Rightarrow> bool" where
  "str_in sub [] = (sub = [])"
| "str_in sub (c # cs) = (starts_with sub (c # cs) \<or> str_in sub cs)"

section \<open>The column profile\<close>

text \<open>The dictionary returned by \<^verbatim>\<open>auto_detect_columns\<close>: its five keys are fixed.\<close>

record profile =
  numeric :: "string list"
  categorical :: "string list"
  date :: "string list"
  best_numeric :: "string option"
  best_categorical :: "string option"

text \<open>An optional column name as a Python value.\<close>

fun opt_str :: "string option \<Rightarrow> pyval" where
  "opt_str None = PNone"
| "opt_str (Some s) = PStr s"

section \<open>get\_chart\_config\<close>

text \<open>
  \<^verbatim>\<open>detected['best_categorical'] or (detected['date'][0] if detected['date'] else None)\<close>
\<close>

definition x_col_default :: "profile \<Rightarrow> pyval" where
  "x_col_default detected =
     (if truthy (opt_str (best_categorical detected)) then opt_str (best_categorical detected)
      else (case date detected of [] \<Rightarrow> PNone | d # _ \<Rightarrow> PStr d))"

text \<open>The body of the loop of \<^verbatim>\<open>get_chart_config\<close>: the value stored under \<open>key\<close>.\<close>

definition resolve_value :: "profile \<Rightarrow> string \<Rightarrow> pyval \<Rightarrow> pyval" where
  "resolve_value detected key v =
     (if v = PStr ''auto'' \<or> v = PNone then
        (if str_in ''category'' key then opt_str (best_categorical detected)
         else if str_in ''value'' key \<or> str_in ''y_col'' key then opt_str (best_numeric detected)
         else if str_in ''x_col'' key then x_col_default detected
         else if key = ''y_columns'' then PList (map PStr (take 3 (numeric detected)))
         else if key = ''title'' then PNone
         else v)
      else v)"

text \<open>\<^verbatim>\<open>config.get('charts', {}).get(chart_type, {})\<close>: the user's fragment for one chart.\<close>

definition chart_fragment :: "pydict \<Rightarrow> string \<Rightarrow> py_error + pyval" where
  "chart_fragment config chart_type =
     py_get (dict_get config ''charts'' (PDict [])) chart_type (PDict [])"

text \<open>
  The loop \<^verbatim>\<open>for key, value in chart_conf.items(): result[key] = ...\<close>, with
  \<^verbatim>\<open>result[key] = v\<close> as \<^const>\<open>AList.update\<close> (an existing key keeps its place, a new key
  is appended).
\<close>

fun resolve_items :: "profile \<Rightarrow> pydict \<Rightarrow> pydict \<Rightarrow> pydict" where
  "resolve_items detected [] result = result"
| "resolve_items detected ((key, v) # rest) result =
     resolve_items detected rest (AList.update key (resolve_value detected key v) result)"

definition get_chart_config :: "pydict \<Rightarrow> string \<Rightarrow> profile \<Rightarrow> py_error + pydict" where
  "get_chart_config config chart_type detected =
     (case chart_fragment config chart_type of
        Inl e \<Rightarrow> Inl e
      | Inr chart_conf \<Rightarrow>
          (case py_items chart_conf of
             Inl e \<Rightarrow> Inl e
           | Inr items \<Rightarrow> Inr (resolve_items detected items [])))"

text \<open>The default configuration of \<^verbatim>\<open>config_loader.get_default_config\<close>, charts section.\<close>

definition default_config :: pydict where
  "default_config =
     [(''charts'', PDict
        [(''bar_chart'', PDict
            [(''enabled'', PBool True), (''category_column'', PStr ''auto''),
             (''value_column'', PStr ''auto''), (''aggregation'', PStr ''sum''),
             (''top_n'', PInt 15)]),
         (''pie_chart'', PDict
            [(''enabled'', PBool True), (''category_column'', PStr ''auto''),
             (''value_column'', PStr ''auto''), (''aggregation'', PStr ''sum''),
             (''top_n'', PInt 10)]),
         (''line_chart'', PDict
            [(''enabled'', PBool True), (''x_column'', PStr ''auto''),
             (''y_columns'', PStr ''auto'')])])]"

definition default_bar_items :: pydict where
  "default_bar_items =
     [(''enabled'', PBool True), (''category_column'', PStr ''auto''),
      (''value_column'', PStr ''auto''), (''aggregation'', PStr ''sum''),
      (''top_n'', PInt 15)]"

text \<open>A fragment with one placeholder of each role, and a configuration holding it.\<close>

definition example_items :: pydict where
  "example_items =
     [(''category_column'', PStr ''auto''), (''value_column'', PNone),
      (''x_column'', PStr ''auto''), (''title'', PStr ''auto''), (''top_n'', PNone),
      (''y_col'', PStr ''auto'')]"

definition example_config :: pydict where
  "example_config = [(''charts'', PDict [(''bar_chart'', PDict example_items)])]"

text \<open>A configuration whose bar chart fragment has no \<^verbatim>\<open>category_column\<close> key.\<close>

definition no_category_config :: pydict where
  "no_category_config =
     [(''charts'', PDict [(''bar_chart'', PDict [(''value_column'', PStr ''auto'')])])]"

text \<open>A configuration whose bar chart fragment supplies a null value column.\<close>

definition null_value_config :: pydict where
  "null_value_config =
     [(''charts'', PDict [(''bar_chart'', PDict [(''value_column'', PNone)])])]"

text \<open>A fragment in which every column role and the title are given explicitly.\<close>

definition explicit_items :: pydict where
  "explicit_items =
     [(''category_column'', PStr ''status''), (''value_column'', PStr ''profit''),
      (''x_column'', PStr ''order_date''), (''title'', PStr ''Sales''), (''top_n'', PInt 5)]"

definition explicit_config :: pydict where
  "explicit_config = [(''charts'', PDict [(''pie_chart'', PDict explicit_items)])]"

definition example_profile :: profile where
  "example_profile =
     \<lparr>numeric = [''revenue'', ''profit''], categorical = [''region'', ''status''],
      date = [''order_date''], best_numeric = Some ''revenue'',
      best_categorical = Some ''region''\<rparr>"

section \<open>Data frames\<close>

text \<open>
  A data frame is a row count and a list of columns in the frame's column order. A column
  has a label, the kind of its pandas dtype as far as \<^verbatim>\<open>select_dtypes\<close> tells kinds apart,
  and one cell per row. A cell is null, a number or a text. Numbers are exact rationals:
  the rounding of binary floating point in sums and means is not modelled (the threshold of
  \<^verbatim>\<open>auto_detect_columns\<close>, where rounding decides the outcome, is modelled below).
\<close>

datatype cell = NA | Num rat | Txt string

datatype dtype = Number | Object | Category | OtherDtype

record column =
  cname :: string
  dtype :: dtype
  cells :: "cell list"

record dataframe =
  nrows :: nat
  columns :: "column list"

text \<open>Every column has one cell per row.\<close>

definition wf_df :: "dataframe \<Rightarrow> bool" where
  "wf_df df = list_all (\<lambda>c. length (cells c) = nrows df) (columns df)"

text \<open>
  \<^verbatim>\<open>df[col]\<close> for a label: a missing label raises KeyError. A duplicated label selects a
  frame instead of a series, and every use of \<^verbatim>\<open>df[col]\<close> in \<^verbatim>\<open>main.py\<close> then raises
  ValueError (the truth value of the comparison is ambiguous, or the grouper is not
  one-dimensional).
\<close>

definition getitem :: "dataframe \<Rightarrow> string \<Rightarrow> py_error + column" where
  "getitem df col =
     (case filter (\<lambda>c. cname c = col) (columns df) of
        [] \<Rightarrow> Inl KeyError
      | [c] \<Rightarrow> Inr c
      | _ \<Rightarrow> Inl ValueError)"

text \<open>\<^verbatim>\<open>series.notna().sum()\<close>\<close>

definition notna_sum :: "column \<Rightarrow> nat" where
  "notna_sum c = length (filter (\<lambda>x. x \<noteq> NA) (cells c))"

text \<open>\<^verbatim>\<open>series.nunique()\<close>: the number of distinct non-null values.\<close>

definition nunique :: "column \<Rightarrow> nat" where
  "nunique c = length (remdups (filter (\<lambda>x. x \<noteq> NA) (cells c)))"

subsection \<open>Binary64 arithmetic of the threshold\<close>

text \<open>
  \<^verbatim>\<open>df[col].notna().sum() > len(df) * 0.3\<close> multiplies in binary64. A finite binary64 value
  is a pair \<open>(m, e)\<close> standing for \<open>m * 2 ^ e\<close>; a result is rounded to 53 significant bits,
  to nearest, ties to even. Overflow and subnormal numbers do not arise for row counts.
\<close>

definition dy_val :: "int \<times> int \<Rightarrow> rat" where
  "dy_val d = of_int (fst d) * (if 0 \<le> snd d then 2 ^ nat (snd d) else 1 / 2 ^ nat (- snd d))"

definition round_even :: "int \<Rightarrow> nat \<Rightarrow> int" where
  "round_even m s =
     (let q = m div 2 ^ s; r = m mod 2 ^ s
      in if 2 * r < 2 ^ s then q
         else if 2 ^ s < 2 * r then q + 1
         else if even q then q else q + 1)"

definition round53 :: "int \<Rightarrow> int \<Rightarrow> int \<times> int" where
  "round53 m e =
     (let s = bitlen m - 53
      in if s \<le> 0 then (m, e) else (round_even m (nat s), e + s))"

text \<open>The conversion of a non-negative integer to binary64.\<close>

definition float_of_nat :: "nat \<Rightarrow> int \<times> int" where
  "float_of_nat n = round53 (int n) 0"

text \<open>The product of two non-negative binary64 values.\<close>

definition float_mul :: "int \<times> int \<Rightarrow> int \<times> int \<Rightarrow> int \<times> int" where
  "float_mul a b = round53 (fst a * fst b) (snd a + snd b)"

text \<open>The literal \<^verbatim>\<open>0.3\<close>: the binary64 value nearest to three tenths, \<open>0x3FD3333333333333\<close>.\<close>

definition float_03 :: "int \<times> int" where
  "float_03 = (5404319552844595, - 54)"

text \<open>\<^verbatim>\<open>count > n * 0.3\<close>\<close>

definition exceeds_30_percent :: "nat \<Rightarrow> nat \<Rightarrow> bool" where
  "exceeds_30_percent cnt n =
     (dy_val (float_mul (float_of_nat n) float_03) < dy_val (float_of_nat cnt))"

section \<open>auto\_detect\_columns\<close>

text \<open>
  \<^verbatim>\<open>str.lower()\<close>. A label is a byte string (UTF-8); only the letters A to Z change.
  Python also lowers letters outside ASCII, which never produces or removes an occurrence
  of \<^verbatim>\<open>date\<close> or \<^verbatim>\<open>time\<close>.
\<close>

definition lower_char :: "char \<Rightarrow> char" where
  "lower_char c =
     (let n = (of_char c :: nat) in if 65 \<le> n \<and> n \<le> 90 then char_of (n + 32) else c)"

definition lower :: "string \<Rightarrow> string" where
  "lower s = map lower_char s"

text \<open>
  The comprehension \<^verbatim>\<open>[col for col in cols if df[col].notna().sum() > len(df) * 0.3]\<close>.
\<close>

fun valid_columns :: "dataframe \<Rightarrow> string list \<Rightarrow> py_error + string list" where
  "valid_columns df [] = Inr []"
| "valid_columns df (col # cols) =
     (case getitem df col of
        Inl e \<Rightarrow> Inl e
      | Inr c \<Rightarrow>
          (case valid_columns df cols of
             Inl e \<Rightarrow> Inl e
           | Inr rest \<Rightarrow>
               Inr (if exceeds_30_percent (notna_sum c) (nrows df) then col # rest else rest)))"

text \<open>\<^verbatim>\<open>xs[0] if xs else None\<close>\<close>

fun first_or_none :: "string list \<Rightarrow> string option" where
  "first_or_none [] = None"
| "first_or_none (x # _) = Some x"

definition is_date_name :: "string \<Rightarrow> bool" where
  "is_date_name col = (str_in ''date'' (lower col) \<or> str_in ''time'' (lower col))"

definition auto_detect_columns :: "dataframe \<Rightarrow> py_error + profile" where
  "auto_detect_columns df =
     (let numeric_cols = map cname (filter (\<lambda>c. dtype c = Number) (columns df));
          categorical_cols =
            map cname (filter (\<lambda>c. dtype c = Object \<or> dtype c = Category) (columns df));
          date_cols = filter is_date_name (map cname (columns df))
      in case valid_columns df numeric_cols of
           Inl e \<Rightarrow> Inl e
         | Inr valid_numeric \<Rightarrow>
             (case valid_columns df categorical_cols of
                Inl e \<Rightarrow> Inl e
              | Inr valid_categorical \<Rightarrow>
                  Inr \<lparr>numeric = valid_numeric, categorical = valid_categorical,
                       date = date_cols,
                       best_numeric = first_or_none valid_numeric,
                       best_categorical = first_or_none valid_categorical\<rparr>))"

text \<open>
  A frame whose date-like columns are also categorical or numeric: \<^verbatim>\<open>order_date\<close> (text),
  \<^verbatim>\<open>Timestamp\<close> (numbers) and \<^verbatim>\<open>region\<close> (text, half null).
\<close>

definition dated_df :: dataframe where
  "dated_df =
     \<lparr>nrows = 2,
      columns =
        [\<lparr>cname = ''order_date'', dtype = Object,
           cells = [Txt ''2024-01-01'', Txt ''2024-01-02'']\<rparr>,
         \<lparr>cname = ''Timestamp'', dtype = Number, cells = [Num 1, Num 2]\<rparr>,
         \<lparr>cname = ''region'', dtype = Object, cells = [Txt ''north'', NA]\<rparr>]\<rparr>"

definition dated_profile :: profile where
  "dated_profile =
     \<lparr>numeric = [''Timestamp''], categorical = [''order_date'', ''region''],
      date = [''order_date'', ''Timestamp''], best_numeric = Some ''Timestamp'',
      best_categorical = Some ''order_date''\<rparr>"

text \<open>
  A frame of ten rows for the threshold: \<^verbatim>\<open>exact\<close> has three values (a fraction of exactly
  0.30), \<^verbatim>\<open>above\<close> has four, \<^verbatim>\<open>label\<close> is full and \<^verbatim>\<open>note\<close> has three.
\<close>

definition threshold_df :: dataframe where
  "threshold_df =
     \<lparr>nrows = 10,
      columns =
        [\<lparr>cname = ''exact'', dtype = Number,
           cells = [Num 1, Num 2, Num 3, NA, NA, NA, NA, NA, NA, NA]\<rparr>,
         \<lparr>cname = ''above'', dtype = Number,
           cells = [Num 1, Num 2, Num 3, Num 4, NA, NA, NA, NA, NA, NA]\<rparr>,
         \<lparr>cname = ''label'', dtype = Object,
           cells = [Txt ''a'', Txt ''b'', Txt ''c'', Txt ''d'', Txt ''e'', Txt ''f'',
                    Txt ''g'', Txt ''h'', Txt ''i'', Txt ''j'']\<rparr>,
         \<lparr>cname = ''note'', dtype = Category,
           cells = [Txt ''a'', NA, Txt ''b'', NA, Txt ''c'', NA, NA, NA, NA, NA]\<rparr>]\<rparr>"

section \<open>Grouping and aggregation\<close>

text \<open>
  Results of a list of fallible steps, in order: the first error is the result.
\<close>

fun collect :: "('e + 'a) list \<Rightarrow> 'e + 'a list" where
  "collect [] = Inr []"
| "collect (x # xs) =
     (case x of
        Inl e \<Rightarrow> Inl e
      | Inr v \<Rightarrow> (case collect xs of Inl e \<Rightarrow> Inl e | Inr vs \<Rightarrow> Inr (v # vs)))"

text \<open>
  \<^verbatim>\<open>df.groupby(col)\<close> with the pandas defaults \<^verbatim>\<open>sort=True\<close> and \<^verbatim>\<open>dropna=True\<close>: one group
  per distinct non-null key, in ascending key order (numbers before texts, numbers by
  value, texts by code point).
\<close>

fun cell_key :: "cell \<Rightarrow> nat \<times> rat \<times> string" where
  "cell_key (Num v) = (0, v, [])"
| "cell_key (Txt s) = (1, 0, s)"
| "cell_key NA = (2, 0, [])"

definition group_keys :: "column \<Rightarrow> cell list" where
  "group_keys kc = sort_key cell_key (remdups (filter (\<lambda>x. x \<noteq> NA) (cells kc)))"

text \<open>The cells of the value column in the rows of one group, in row order.\<close>

definition group_cells :: "column \<Rightarrow> column \<Rightarrow> cell \<Rightarrow> cell list" where
  "group_cells kc vc k = map snd (filter (\<lambda>p. fst p = k) (zip (cells kc) (cells vc)))"

text \<open>\<^verbatim>\<open>groupby(col).size()\<close>: the number of rows of one group.\<close>

definition group_size :: "column \<Rightarrow> cell \<Rightarrow> nat" where
  "group_size kc k = length (filter (\<lambda>x. x = k) (cells kc))"

text \<open>The numbers among the cells; nulls are skipped, a text is outside the model.\<close>

fun nums_of :: "cell list \<Rightarrow> py_error + rat list" where
  "nums_of [] = Inr []"
| "nums_of (NA # xs) = nums_of xs"
| "nums_of (Num v # xs) = (case nums_of xs of Inl e \<Rightarrow> Inl e | Inr vs \<Rightarrow> Inr (v # vs))"
| "nums_of (Txt s # xs) = Inl NotModelled"

text \<open>
  \<^verbatim>\<open>series.agg(name)\<close> on one group, for the aggregations \<^verbatim>\<open>sum\<close> (zero for a group without
  numbers) and \<^verbatim>\<open>mean\<close> (null for a group without numbers); other names are outside the
  model.
\<close>

definition series_agg :: "string \<Rightarrow> cell list \<Rightarrow> py_error + rat option" where
  "series_agg name xs =
     (if name = ''sum'' then
        (case nums_of xs of Inl e \<Rightarrow> Inl e | Inr vs \<Rightarrow> Inr (Some (sum_list vs)))
      else if name = ''mean'' then
        (case nums_of xs of
           Inl e \<Rightarrow> Inl e
         | Inr vs \<Rightarrow> Inr (if vs = [] then None else Some (sum_list vs / of_nat (length vs))))
      else Inl NotModelled)"

text \<open>
  Lines 199 to 202 (and 235 to 238) of \<^verbatim>\<open>main.py\<close>: the aggregated table, one row per group
  with the group's key and its aggregate (\<open>None\<close> is a null aggregate).
  \<^verbatim>\<open>reset_index\<close> raises ValueError when the value column has the label of the key column.
\<close>

definition group_agg ::
  "dataframe \<Rightarrow> string \<Rightarrow> string \<Rightarrow> pyval \<Rightarrow> py_error + (cell \<times> rat option) list" where
  "group_agg df cat_col val_col agg =
     (case getitem df cat_col of
        Inl e \<Rightarrow> Inl e
      | Inr kc \<Rightarrow>
          if agg = PStr ''count'' then
            (if val_col = cat_col then Inl ValueError
             else Inr (map (\<lambda>k. (k, Some (of_nat (group_size kc k)))) (group_keys kc)))
          else
            (case getitem df val_col of
               Inl e \<Rightarrow> Inl e
             | Inr vc \<Rightarrow>
                 (case agg of
                    PStr name \<Rightarrow>
                      (case collect (map (\<lambda>k. case series_agg name (group_cells kc vc k) of
                                                Inl e \<Rightarrow> Inl e
                                              | Inr v \<Rightarrow> Inr (k, v))
                                         (group_keys kc)) of
                         Inl e \<Rightarrow> Inl e
                       | Inr rows \<Rightarrow> if val_col = cat_col then Inl ValueError else Inr rows)
                  | _ \<Rightarrow> Inl NotModelled)))"

text \<open>\<^verbatim>\<open>frame.dropna()\<close> on an aggregated table: rows with a null aggregate go.\<close>

fun dropna :: "(cell \<times> rat option) list \<Rightarrow> (cell \<times> rat) list" where
  "dropna [] = []"
| "dropna ((k, None) # rows) = dropna rows"
| "dropna ((k, Some v) # rows) = (k, v) # dropna rows"

text \<open>
  \<^verbatim>\<open>frame.sort_values(val_col, ascending=False)\<close>: descending by aggregate. pandas reverses
  the rows, sorts ascending and reverses the result; rows with equal aggregates keep their
  order here, as they do in pandas whenever its sort is stable.
\<close>

definition sort_desc :: "(cell \<times> rat) list \<Rightarrow> (cell \<times> rat) list" where
  "sort_desc rows = rev (sort_key snd (rev rows))"

text \<open>\<^verbatim>\<open>frame.head(n)\<close>: the first \<open>n\<close> rows, or all but the last \<open>-n\<close> rows.\<close>

definition head :: "int \<Rightarrow> 'a list \<Rightarrow> 'a list" where
  "head n xs = (if 0 \<le> n then take (nat n) xs else take (length xs - nat (- n)) xs)"

text \<open>
  A configured \<^verbatim>\<open>top_n\<close> in the comparison \<^verbatim>\<open>top_n > 0\<close>: an integer compares, null and
  texts raise TypeError, the other values are outside the model.
\<close>

fun as_int :: "pyval \<Rightarrow> py_error + int" where
  "as_int (PInt n) = Inr n"
| "as_int PNone = Inl TypeError"
| "as_int (PStr s) = Inl TypeError"
| "as_int (PList xs) = Inl TypeError"
| "as_int (PDict d) = Inl TypeError"
| "as_int (PBool b) = Inl NotModelled"

text \<open>A column label taken from the configuration: a text; other values are outside the model.\<close>

fun as_label :: "pyval \<Rightarrow> py_error + string" where
  "as_label (PStr s) = Inr s"
| "as_label _ = Inl NotModelled"

section \<open>The chart sections of generate\_report\<close>

text \<open>
  What a chart section hands to the renderer: the aggregated table and the labels of its
  key and value fields. \<open>None\<close> stands for a skipped chart.
\<close>

record chart =
  table :: "(cell \<times> rat) list"
  key_field :: string
  value_field :: string

text \<open>\<^verbatim>\<open>charts_config.get(chart_type, {}).get('enabled', True)\<close>\<close>

definition chart_enabled :: "pydict \<Rightarrow> string \<Rightarrow> py_error + pyval" where
  "chart_enabled config chart_type =
     (case chart_fragment config chart_type of
        Inl e \<Rightarrow> Inl e
      | Inr frag \<Rightarrow> py_get frag ''enabled'' (PBool True))"

text \<open>Lines 198 to 207: aggregate, drop null aggregates, sort descending, keep the top N.\<close>

definition bar_data ::
  "dataframe \<Rightarrow> string \<Rightarrow> string \<Rightarrow> pyval \<Rightarrow> pyval \<Rightarrow> py_error + (cell \<times> rat) list" where
  "bar_data df cat_col val_col agg top_n =
     (case group_agg df cat_col val_col agg of
        Inl e \<Rightarrow> Inl e
      | Inr agg_data \<Rightarrow>
          (case as_int top_n of
             Inl e \<Rightarrow> Inl e
           | Inr n \<Rightarrow>
               Inr (if 0 < n then head n (sort_desc (dropna agg_data))
                    else sort_desc (dropna agg_data))))"

text \<open>Lines 191 to 215, without the title and the rendering.\<close>

definition bar_chart :: "pydict \<Rightarrow> dataframe \<Rightarrow> profile \<Rightarrow> py_error + chart option" where
  "bar_chart config df detected =
     (case get_chart_config config ''bar_chart'' detected of
        Inl e \<Rightarrow> Inl e
      | Inr bar_conf \<Rightarrow>
          (case chart_enabled config ''bar_chart'' of
             Inl e \<Rightarrow> Inl e
           | Inr enabled \<Rightarrow>
               if truthy enabled \<and> truthy (dict_get bar_conf ''category_column'' PNone) \<and>
                  truthy (dict_get bar_conf ''value_column'' PNone)
               then
                 (case as_label (dict_get bar_conf ''category_column'' PNone) of
                    Inl e \<Rightarrow> Inl e
                  | Inr cat_col \<Rightarrow>
                      (case as_label (dict_get bar_conf ''value_column'' PNone) of
                         Inl e \<Rightarrow> Inl e
                       | Inr val_col \<Rightarrow>
                           (case bar_data df cat_col val_col
                                   (dict_get bar_conf ''aggregation'' (PStr ''sum''))
                                   (dict_get bar_conf ''top_n'' (PInt 15)) of
                              Inl e \<Rightarrow> Inl e
                            | Inr agg_data \<Rightarrow>
                                Inr (Some \<lparr>table = agg_data, key_field = cat_col,
                                           value_field = val_col\<rparr>))))
               else Inr None))"

text \<open>
  Lines 226 to 232: the loop over the categorical list that looks for a column with three
  to eight distinct values, and the replacement of an auto-selected category column.
\<close>

fun pick_pie_column :: "dataframe \<Rightarrow> string list \<Rightarrow> py_error + string option" where
  "pick_pie_column df [] = Inr None"
| "pick_pie_column df (col # cols) =
     (case getitem df col of
        Inl e \<Rightarrow> Inl e
      | Inr c \<Rightarrow>
          if 3 \<le> nunique c \<and> nunique c \<le> 8 then Inr (Some col)
          else pick_pie_column df cols)"

definition pie_category :: "dataframe \<Rightarrow> profile \<Rightarrow> string \<Rightarrow> py_error + string" where
  "pie_category df detected cat_col =
     (if Some cat_col = best_categorical detected then
        (case pick_pie_column df (categorical detected) of
           Inl e \<Rightarrow> Inl e
         | Inr None \<Rightarrow> Inr cat_col
         | Inr (Some col) \<Rightarrow> Inr col)
      else Inr cat_col)"

text \<open>Lines 234 to 246: aggregate, drop, sort, and bucket the tail into \<^verbatim>\<open>Other\<close>.\<close>

definition pie_data ::
  "dataframe \<Rightarrow> string \<Rightarrow> string \<Rightarrow> pyval \<Rightarrow> pyval \<Rightarrow> py_error + (cell \<times> rat) list" where
  "pie_data df cat_col val_col agg top_n =
     (case group_agg df cat_col val_col agg of
        Inl e \<Rightarrow> Inl e
      | Inr agg_data \<Rightarrow>
          (case as_int top_n of
             Inl e \<Rightarrow> Inl e
           | Inr n \<Rightarrow>
               Inr (if 0 < n \<and> n < int (length (sort_desc (dropna agg_data)))
                    then head (n - 1) (sort_desc (dropna agg_data)) @
                         [(Txt ''Other'',
                           sum_list (map snd (drop (nat (n - 1))
                                                (sort_desc (dropna agg_data)))))]
                    else sort_desc (dropna agg_data))))"

text \<open>Lines 218 to 253, without the title and the rendering.\<close>

definition pie_chart :: "pydict \<Rightarrow> dataframe \<Rightarrow> profile \<Rightarrow> py_error + chart option" where
  "pie_chart config df detected =
     (case get_chart_config config ''pie_chart'' detected of
        Inl e \<Rightarrow> Inl e
      | Inr pie_conf \<Rightarrow>
          (case chart_enabled config ''pie_chart'' of
             Inl e \<Rightarrow> Inl e
           | Inr enabled \<Rightarrow>
               if truthy enabled \<and> truthy (dict_get pie_conf ''category_column'' PNone) \<and>
                  truthy (dict_get pie_conf ''value_column'' PNone)
               then
                 (case as_label (dict_get pie_conf ''category_column'' PNone) of
                    Inl e \<Rightarrow> Inl e
                  | Inr cat_col0 \<Rightarrow>
                      (case as_label (dict_get pie_conf ''value_column'' PNone) of
                         Inl e \<Rightarrow> Inl e
                       | Inr val_col \<Rightarrow>
                           (case pie_category df detected cat_col0 of
                              Inl e \<Rightarrow> Inl e
                            | Inr cat_col \<Rightarrow>
                                (case pie_data df cat_col val_col
                                        (dict_get pie_conf ''aggregation'' (PStr ''sum''))
                                        (dict_get pie_conf ''top_n'' (PInt 10)) of
                                   Inl e \<Rightarrow> Inl e
                                 | Inr data \<Rightarrow>
                                     Inr (Some \<lparr>table = data, key_field = cat_col,
                                                value_field = val_col\<rparr>)))))
               else Inr None))"

text \<open>\<^verbatim>\<open>a or b\<close>\<close>

definition py_or :: "pyval \<Rightarrow> pyval \<Rightarrow> pyval" where
  "py_or a b = (if truthy a then a else b)"

text \<open>
  The y columns: a list of labels, or one label (the renderer is then given the
  one-element list).
\<close>

fun as_labels :: "pyval \<Rightarrow> py_error + string list" where
  "as_labels (PStr s) = Inr [s]"
| "as_labels (PList xs) = collect (map as_label xs)"
| "as_labels _ = Inl NotModelled"

text \<open>
  Line 263: \<^verbatim>\<open>df.groupby(x_col)[y_cols].sum().reset_index()\<close>, one row per group with the
  sums of the y columns.
\<close>

definition line_group ::
  "dataframe \<Rightarrow> string \<Rightarrow> string list \<Rightarrow> py_error + (cell \<times> rat option list) list" where
  "line_group df x_col y_cols =
     (case getitem df x_col of
        Inl e \<Rightarrow> Inl e
      | Inr kc \<Rightarrow>
          (case collect (map (getitem df) y_cols) of
             Inl e \<Rightarrow> Inl e
           | Inr ycs \<Rightarrow>
               (case collect
                       (map (\<lambda>k. case collect (map (\<lambda>yc. series_agg ''sum'' (group_cells kc yc k))
                                                  ycs) of
                                   Inl e \<Rightarrow> Inl e
                                 | Inr vs \<Rightarrow> Inr (k, vs))
                            (group_keys kc)) of
                  Inl e \<Rightarrow> Inl e
                | Inr rows \<Rightarrow> if x_col \<in> set y_cols then Inl ValueError else Inr rows)))"

text \<open>\<^verbatim>\<open>frame.dropna()\<close> on the grouped sums: rows with any null go.\<close>

definition dropna_rows :: "(cell \<times> rat option list) list \<Rightarrow> (cell \<times> rat list) list" where
  "dropna_rows rows =
     map (\<lambda>r. (fst r, map the (snd r)))
         (filter (\<lambda>r. list_all (\<lambda>v. v \<noteq> None) (snd r)) rows)"

text \<open>Lines 263 and 264.\<close>

definition line_data ::
  "dataframe \<Rightarrow> string \<Rightarrow> string list \<Rightarrow> py_error + (cell \<times> rat list) list" where
  "line_data df x_col y_cols =
     (case line_group df x_col y_cols of
        Inl e \<Rightarrow> Inl e
      | Inr grouped \<Rightarrow> Inr (head 20 (dropna_rows grouped)))"

record line_args =
  line_table :: "(cell \<times> rat list) list"
  x_field :: string
  y_fields :: "string list"

text \<open>Lines 258 and 259.\<close>

definition line_x_col :: "pydict \<Rightarrow> profile \<Rightarrow> pyval" where
  "line_x_col line_conf detected =
     py_or (dict_get line_conf ''x_column'' PNone) (opt_str (best_categorical detected))"

definition line_y_cols :: "pydict \<Rightarrow> profile \<Rightarrow> pyval" where
  "line_y_cols line_conf detected =
     py_or (dict_get line_conf ''y_columns'' PNone)
           (PList (map PStr (take 3 (numeric detected))))"

text \<open>Lines 256 to 271, without the title and the rendering.\<close>

definition line_chart :: "pydict \<Rightarrow> dataframe \<Rightarrow> profile \<Rightarrow> py_error + line_args option" where
  "line_chart config df detected =
     (case get_chart_config config ''line_chart'' detected of
        Inl e \<Rightarrow> Inl e
      | Inr line_conf \<Rightarrow>
          (case chart_enabled config ''line_chart'' of
             Inl e \<Rightarrow> Inl e
           | Inr enabled \<Rightarrow>
               if truthy enabled \<and> 2 \<le> length (numeric detected) then
                 (if truthy (line_x_col line_conf detected) \<and>
                     truthy (line_y_cols line_conf detected)
                  then
                    (case as_label (line_x_col line_conf detected) of
                       Inl e \<Rightarrow> Inl e
                     | Inr x_col \<Rightarrow>
                         (case as_labels (line_y_cols line_conf detected) of
                            Inl e \<Rightarrow> Inl e
                          | Inr y_cols \<Rightarrow>
                              (case line_data df x_col y_cols of
                                 Inl e \<Rightarrow> Inl e
                               | Inr data \<Rightarrow>
                                   if 1 < length data
                                   then Inr (Some \<lparr>line_table = data, x_field = x_col,
                                                   y_fields = y_cols\<rparr>)
                                   else Inr None)))
                  else Inr None)
               else Inr None))"

text \<open>
  Scenario C of the spec: twenty rows, \<^verbatim>\<open>region\<close> with twenty distinct values, \<^verbatim>\<open>status\<close>
  with five, and two numeric columns.
\<close>

definition scenario_df :: dataframe where
  "scenario_df =
     \<lparr>nrows = 20,
      columns =
        [\<lparr>cname = ''region'', dtype = Object,
           cells = map Txt
                   [''r01'', ''r02'', ''r03'', ''r04'', ''r05'', ''r06'', ''r07'', ''r08'',
                    ''r09'', ''r10'', ''r11'', ''r12'', ''r13'', ''r14'', ''r15'', ''r16'',
                    ''r17'', ''r18'', ''r19'', ''r20'']\<rparr>,
         \<lparr>cname = ''status'', dtype = Object,
           cells = map Txt
                   [''s1'', ''s2'', ''s3'', ''s4'', ''s5'', ''s1'', ''s2'', ''s3'', ''s4'',
                    ''s5'', ''s1'', ''s2'', ''s3'', ''s4'', ''s5'', ''s1'', ''s2'', ''s3'',
                    ''s4'', ''s5'']\<rparr>,
         \<lparr>cname = ''revenue'', dtype = Number,
           cells = map Num
                   [1, 2, 3, 4, 5, 6, 7, 8, 9, 10, 11, 12, 13, 14, 15, 16, 17, 18, 19, 20]\<rparr>,
         \<lparr>cname = ''profit'', dtype = Number,
           cells = map Num
                   [1, 2, 3, 4, 5, 6, 0, 1, 2, 3, 4, 5, 6, 0, 1, 2, 3, 4, 5, 6]\<rparr>]\<rparr>"

definition scenario_profile :: profile where
  "scenario_profile =
     \<lparr>numeric = [''revenue'', ''profit''], categorical = [''region'', ''status''],
      date = [], best_numeric = Some ''revenue'', best_categorical = Some ''region''\<rparr>"

text \<open>
  Twenty-one rows with twenty-one distinct keys; the key of the first row, \<^verbatim>\<open>u\<close>, is the
  greatest.
\<close>

definition order_df :: dataframe where
  "order_df =
     \<lparr>nrows = 21,
      columns =
        [\<lparr>cname = ''k'', dtype = Object,
           cells = map Txt
                   [''u'', ''a'', ''b'', ''c'', ''d'', ''e'', ''f'', ''g'', ''h'', ''i'',
                    ''j'', ''k'', ''l'', ''m'', ''n'', ''o'', ''p'', ''q'', ''r'', ''s'',
                    ''t'']\<rparr>,
         \<lparr>cname = ''v'', dtype = Number,
           cells = map Num
                   [1, 2, 3, 4, 5, 6, 7, 8, 9, 10, 11, 12, 13, 14, 15, 16, 17, 18, 19, 20,
                    21]\<rparr>,
         \<lparr>cname = ''w'', dtype = Number,
           cells = map Num
                   [1, 2, 0, 1, 2, 0, 1, 2, 0, 1, 2, 0, 1, 2, 0, 1, 2, 0, 1, 2, 0]\<rparr>]\<rparr>"

text \<open>
  The spec's reading of the line chart cap: the distinct non-null keys in the order of their
  first row.
\<close>

definition row_order_keys :: "column \<Rightarrow> cell list" where
  "row_order_keys kc = rev (remdups (rev (filter (\<lambda>x. x \<noteq> NA) (cells kc))))"

text \<open>A frame with two numeric columns whose rows all fall into one group.\<close>

definition one_group_df :: dataframe where
  "one_group_df =
     \<lparr>nrows = 2,
      columns =
        [\<lparr>cname = ''k'', dtype = Object, cells = [Txt ''a'', Txt ''a'']\<rparr>,
         \<lparr>cname = ''v'', dtype = Number, cells = [Num 1, Num 2]\<rparr>,
         \<lparr>cname = ''w'', dtype = Number, cells = [Num 3, Num 4]\<rparr>]\<rparr>"

definition one_group_profile :: profile where
  "one_group_profile =
     \<lparr>numeric = [''v'', ''w''], categorical = [''k''], date = [],
      best_numeric = Some ''v'', best_categorical = Some ''k''\<rparr>"

section \<open>Properties of the resolver\<close>

lemma resolve_items_keys:
  "fst ` set (resolve_items detected items result) = fst ` set items \<union> fst ` set result"
proof (induction items arbitrary: result)
  case Nil
  show ?case by simp
next
  case (Cons kv items)
  obtain key v where kv: "kv = (key, v)" by (cases kv)
  have "fst ` set (AList.update key (resolve_value detected key v) result)
          = insert key (fst ` set result)"
    by (simp add: dom_update)
  then show ?case unfolding kv by (simp add: Cons.IH)
qed

lemma resolve_items_map_of:
  "distinct (map fst items) \<Longrightarrow>
   map_of (resolve_items detected items result) k =
     (case map_of items k of
        None \<Rightarrow> map_of result k
      | Some v \<Rightarrow> Some (resolve_value detected k v))"
proof (induction items arbitrary: result)
  case Nil
  show ?case by simp
next
  case (Cons kv items)
  obtain key v where kv: "kv = (key, v)" by (cases kv)
  from Cons.prems have d: "distinct (map fst items)" and nk: "key \<notin> fst ` set items"
    unfolding kv by auto
  from nk have none: "map_of items key = None" by (simp add: map_of_eq_None_iff)
  show ?case unfolding kv
    using none by (simp add: Cons.IH [OF d] update_conv' split: option.splits)
qed

lemma get_chart_config_items:
  "\<exists>items. chart_fragment config chart_type = Inr (PDict items) \<and>
           result = resolve_items detected items []"
  if "get_chart_config config chart_type detected = Inr result"
proof (cases "chart_fragment config chart_type")
  case (Inl e)
  with that show ?thesis by (simp add: get_chart_config_def)
next
  case (Inr chart_conf)
  with that show ?thesis
    by (cases chart_conf) (simp_all add: get_chart_config_def)
qed


lemma chart_fragment_default_bar:
  "chart_fragment default_config ''bar_chart'' = Inr (PDict default_bar_items)"
  by (simp add: chart_fragment_def default_config_def dict_get_def default_bar_items_def)

text \<open>
  Claim C8, as the code has it. In the dictionary returned by \<^verbatim>\<open>get_chart_config\<close>, every
  key of the fragment whose supplied value is neither the sentinel \<^verbatim>\<open>"auto"\<close> nor null is
  mapped to that same value, for every chart type and every key.
\<close>

theorem explicit_value_preserved:
  assumes "get_chart_config config chart_type detected = Inr result"
    and "chart_fragment config chart_type = Inr (PDict items)"
    and "distinct (map fst items)"
    and "(key, v) \<in> set items"
    and "v \<noteq> PStr ''auto''" and "v \<noteq> PNone"
  shows "map_of result key = Some v"
proof -
  from assms(1,2) have r: "result = resolve_items detected items []"
    by (simp add: get_chart_config_def)
  from assms(3,4) have "map_of items key = Some v" by simp
  with assms(3) have "map_of result key = Some (resolve_value detected key v)"
    unfolding r by (simp add: resolve_items_map_of)
  with assms(5,6) show ?thesis by (simp add: resolve_value_def)
qed

lemma chart_fragment_explicit:
  "chart_fragment explicit_config ''pie_chart'' = Inr (PDict explicit_items)"
  by (simp add: chart_fragment_def explicit_config_def dict_get_def)

theorem explicit_value_preserved_witness:
  "map_of (resolve_items example_profile explicit_items []) ''category_column''
     = Some (PStr ''status'') \<and>
   map_of (resolve_items example_profile explicit_items []) ''value_column''
     = Some (PStr ''profit'') \<and>
   map_of (resolve_items example_profile explicit_items []) ''x_column''
     = Some (PStr ''order_date'') \<and>
   map_of (resolve_items example_profile explicit_items []) ''title''
     = Some (PStr ''Sales'') \<and>
   map_of (resolve_items example_profile explicit_items []) ''top_n'' = Some (PInt 5)"
  using
    explicit_value_preserved [of explicit_config "''pie_chart''" example_profile
      "resolve_items example_profile explicit_items []" explicit_items "''category_column''" "PStr ''status''"]
    explicit_value_preserved [of explicit_config "''pie_chart''" example_profile
      "resolve_items example_profile explicit_items []" explicit_items "''value_column''" "PStr ''profit''"]
    explicit_value_preserved [of explicit_config "''pie_chart''" example_profile
      "resolve_items example_profile explicit_items []" explicit_items "''x_column''" "PStr ''order_date''"]
    explicit_value_preserved [of explicit_config "''pie_chart''" example_profile
      "resolve_items example_profile explicit_items []" explicit_items "''title''" "PStr ''Sales''"]
    explicit_value_preserved [of explicit_config "''pie_chart''" example_profile
      "resolve_items example_profile explicit_items []" explicit_items "''top_n''" "PInt 5"]
  by (simp add: get_chart_config_def chart_fragment_explicit)
     (simp add: explicit_items_def)

text \<open>
  Claim C8 as stated fails: a supplied null differs from the sentinel \<^verbatim>\<open>"auto"\<close>, and
  under the key \<^verbatim>\<open>value_column\<close> it is replaced by the best numeric column.
\<close>

theorem null_value_counterexample:
  "PNone \<noteq> PStr ''auto'' \<and>
   chart_fragment null_value_config ''bar_chart'' = Inr (PDict [(''value_column'', PNone)]) \<and>
   get_chart_config null_value_config ''bar_chart'' example_profile
     = Inr [(''value_column'', PStr ''revenue'')] \<and>
   map_of [(''value_column'', PStr ''revenue'')] ''value_column'' \<noteq> Some PNone"
  by (simp add: get_chart_config_def chart_fragment_def null_value_config_def dict_get_def
        resolve_value_def example_profile_def)

text \<open>
  Claim C9. The dictionary returned by \<^verbatim>\<open>get_chart_config\<close> has exactly the keys of the input
  fragment: resolution adds no key and removes none (and the fragment is a dictionary
  whenever a result is returned).
\<close>

theorem get_chart_config_same_keys:
  assumes "get_chart_config config chart_type detected = Inr result"
  shows "\<exists>items. chart_fragment config chart_type = Inr (PDict items) \<and>
                 fst ` set result = fst ` set items"
proof -
  from get_chart_config_items [OF assms] obtain items
    where f: "chart_fragment config chart_type = Inr (PDict items)"
      and r: "result = resolve_items detected items []" by blast
  have "fst ` set result = fst ` set items"
    unfolding r by (simp add: resolve_items_keys)
  with f show ?thesis by blast
qed

theorem get_chart_config_same_keys_witness:
  "\<exists>items. chart_fragment default_config ''bar_chart'' = Inr (PDict items) \<and>
     fst ` set (resolve_items example_profile default_bar_items []) = fst ` set items"
  using get_chart_config_same_keys [of default_config "''bar_chart''" example_profile
      "resolve_items example_profile default_bar_items []"]
  by (simp add: get_chart_config_def chart_fragment_default_bar)


lemma starts_with_iff: "starts_with sub s \<longleftrightarrow> (\<exists>suf. s = sub @ suf)"
  by (induction sub s rule: starts_with.induct) auto

lemma str_in_iff: "str_in sub s \<longleftrightarrow> (\<exists>pre suf. s = pre @ sub @ suf)"
proof (induction s)
  case Nil
  show ?case by simp
next
  case (Cons c cs)
  have "(\<exists>pre suf. c # cs = pre @ sub @ suf) \<longleftrightarrow>
        (\<exists>suf. c # cs = sub @ suf) \<or> (\<exists>pre suf. cs = pre @ sub @ suf)"
  proof
    assume "\<exists>pre suf. c # cs = pre @ sub @ suf"
    then obtain pre suf where e: "c # cs = pre @ sub @ suf" by blast
    show "(\<exists>suf. c # cs = sub @ suf) \<or> (\<exists>pre suf. cs = pre @ sub @ suf)"
    proof (cases pre)
      case Nil
      with e show ?thesis by auto
    next
      case (Cons d pre')
      with e have "cs = pre' @ sub @ suf" by simp
      then show ?thesis by blast
    qed
  next
    assume "(\<exists>suf. c # cs = sub @ suf) \<or> (\<exists>pre suf. cs = pre @ sub @ suf)"
    then show "\<exists>pre suf. c # cs = pre @ sub @ suf"
    proof
      assume "\<exists>suf. c # cs = sub @ suf"
      then obtain suf where "c # cs = [] @ sub @ suf" by auto
      then show ?thesis by blast
    next
      assume "\<exists>pre suf. cs = pre @ sub @ suf"
      then obtain pre suf where "c # cs = (c # pre) @ sub @ suf" by auto
      then show ?thesis by blast
    qed
  qed
  then show ?case by (simp add: Cons.IH starts_with_iff)
qed

lemma chart_fragment_example:
  "chart_fragment example_config ''bar_chart'' = Inr (PDict example_items)"
  by (simp add: chart_fragment_def example_config_def dict_get_def)

text \<open>
  Claim C1, as the code has it. The resolver only visits the keys that are present in the
  fragment. A present key whose value is \<^verbatim>\<open>"auto"\<close> or null is mapped by the first rule that
  applies: a name containing \<^verbatim>\<open>category\<close> gets the best categorical column; a name
  containing \<^verbatim>\<open>value\<close> or \<^verbatim>\<open>y_col\<close> gets the best numeric column; a name containing
  \<^verbatim>\<open>x_col\<close> gets the best categorical column if there is a non-empty one, else the first
  date column, else null; \<^verbatim>\<open>title\<close> gets null; a name that contains none of
  \<^verbatim>\<open>category\<close>, \<^verbatim>\<open>value\<close>, \<^verbatim>\<open>y_col\<close>, \<^verbatim>\<open>x_col\<close> and is not \<^verbatim>\<open>title\<close> keeps its value.
  Nothing is stated about the key \<^verbatim>\<open>y_columns\<close>. A key that is absent from the fragment is
  absent from the result.
\<close>

theorem auto_value_resolved:
  assumes "get_chart_config config chart_type detected = Inr result"
    and "chart_fragment config chart_type = Inr (PDict items)"
    and "distinct (map fst items)"
  shows "((key, v) \<in> set items \<and> (v = PStr ''auto'' \<or> v = PNone) \<longrightarrow>
           (str_in ''category'' key \<longrightarrow>
              map_of result key = Some (opt_str (best_categorical detected))) \<and>
           (\<not> str_in ''category'' key \<and> (str_in ''value'' key \<or> str_in ''y_col'' key) \<and>
            key \<noteq> ''y_columns'' \<longrightarrow>
              map_of result key = Some (opt_str (best_numeric detected))) \<and>
           (\<not> str_in ''category'' key \<and> \<not> str_in ''value'' key \<and> \<not> str_in ''y_col'' key \<and>
            str_in ''x_col'' key \<longrightarrow>
              map_of result key = Some
                (if best_categorical detected \<noteq> None \<and> best_categorical detected \<noteq> Some []
                 then opt_str (best_categorical detected)
                 else opt_str (case date detected of [] \<Rightarrow> None | d # _ \<Rightarrow> Some d))) \<and>
           (key = ''title'' \<longrightarrow> map_of result key = Some PNone) \<and>
           (\<not> str_in ''category'' key \<and> \<not> str_in ''value'' key \<and> \<not> str_in ''y_col'' key \<and>
            \<not> str_in ''x_col'' key \<and> key \<noteq> ''title'' \<longrightarrow> map_of result key = Some v)) \<and>
         (key \<notin> fst ` set items \<longrightarrow> map_of result key = None)"
proof -
  from assms(1,2) have r: "result = resolve_items detected items []"
    by (simp add: get_chart_config_def)
  have absent: "map_of result key = None" if "key \<notin> fst ` set items"
  proof -
    from that have "key \<notin> fst ` set result" unfolding r by (simp add: resolve_items_keys)
    then show ?thesis by (simp add: map_of_eq_None_iff)
  qed
  have present: "map_of result key = Some (resolve_value detected key v)"
    if "(key, v) \<in> set items"
  proof -
    from assms(3) that have "map_of items key = Some v" by simp
    with assms(3) show ?thesis unfolding r by (simp add: resolve_items_map_of)
  qed
  have xd: "x_col_default detected =
      (if best_categorical detected \<noteq> None \<and> best_categorical detected \<noteq> Some []
       then opt_str (best_categorical detected)
       else opt_str (case date detected of [] \<Rightarrow> None | d # _ \<Rightarrow> Some d))"
    by (cases "best_categorical detected"; cases "date detected")
       (simp_all add: x_col_default_def)
  have t: "\<not> str_in ''category'' ''title''" "\<not> str_in ''value'' ''title''"
    "\<not> str_in ''y_col'' ''title''" "\<not> str_in ''x_col'' ''title''" "''title'' \<noteq> ''y_columns''"
    by simp_all
  have yc: "str_in ''y_col'' ''y_columns''" "str_in ''y_col'' ''y_col''" by simp_all
  show ?thesis
  proof (intro conjI impI)
    assume "key \<notin> fst ` set items"
    then show "map_of result key = None" by (rule absent)
  next
    assume a: "(key, v) \<in> set items \<and> (v = PStr ''auto'' \<or> v = PNone)"
       and "str_in ''category'' key"
    then show "map_of result key = Some (opt_str (best_categorical detected))"
      using present [of] by (auto simp: resolve_value_def)
  next
    assume a: "(key, v) \<in> set items \<and> (v = PStr ''auto'' \<or> v = PNone)"
       and "\<not> str_in ''category'' key \<and> (str_in ''value'' key \<or> str_in ''y_col'' key) \<and>
            key \<noteq> ''y_columns''"
    then show "map_of result key = Some (opt_str (best_numeric detected))"
      using present by (auto simp: resolve_value_def)
  next
    assume a: "(key, v) \<in> set items \<and> (v = PStr ''auto'' \<or> v = PNone)"
       and "\<not> str_in ''category'' key \<and> \<not> str_in ''value'' key \<and> \<not> str_in ''y_col'' key \<and>
            str_in ''x_col'' key"
    then show "map_of result key = Some
                (if best_categorical detected \<noteq> None \<and> best_categorical detected \<noteq> Some []
                 then opt_str (best_categorical detected)
                 else opt_str (case date detected of [] \<Rightarrow> None | d # _ \<Rightarrow> Some d))"
      using present xd by (auto simp: resolve_value_def)
  next
    assume a: "(key, v) \<in> set items \<and> (v = PStr ''auto'' \<or> v = PNone)"
       and "key = ''title''"
    then show "map_of result key = Some PNone"
      using present t by (auto simp: resolve_value_def)
  next
    assume a: "(key, v) \<in> set items \<and> (v = PStr ''auto'' \<or> v = PNone)"
       and b: "\<not> str_in ''category'' key \<and> \<not> str_in ''value'' key \<and> \<not> str_in ''y_col'' key \<and>
            \<not> str_in ''x_col'' key \<and> key \<noteq> ''title''"
    with yc(1) have "key \<noteq> ''y_columns''" by auto
    with a b show "map_of result key = Some v"
      using present by (auto simp: resolve_value_def)
  qed
qed


theorem auto_value_resolved_witness:
  "map_of (resolve_items example_profile example_items []) ''category_column''
     = Some (PStr ''region'') \<and>
   map_of (resolve_items example_profile example_items []) ''value_column''
     = Some (PStr ''revenue'') \<and>
   map_of (resolve_items example_profile example_items []) ''x_column''
     = Some (PStr ''region'') \<and>
   map_of (resolve_items example_profile example_items []) ''title'' = Some PNone \<and>
   map_of (resolve_items example_profile example_items []) ''top_n'' = Some PNone \<and>
   map_of (resolve_items example_profile example_items []) ''y_col''
     = Some (PStr ''revenue'') \<and>
   map_of (resolve_items example_profile example_items []) ''aggregation'' = None"
  using
    auto_value_resolved [of example_config "''bar_chart''" example_profile
      "resolve_items example_profile example_items []" example_items "''category_column''" "PStr ''auto''"]
    auto_value_resolved [of example_config "''bar_chart''" example_profile
      "resolve_items example_profile example_items []" example_items "''value_column''" "PNone"]
    auto_value_resolved [of example_config "''bar_chart''" example_profile
      "resolve_items example_profile example_items []" example_items "''x_column''" "PStr ''auto''"]
    auto_value_resolved [of example_config "''bar_chart''" example_profile
      "resolve_items example_profile example_items []" example_items "''title''" "PStr ''auto''"]
    auto_value_resolved [of example_config "''bar_chart''" example_profile
      "resolve_items example_profile example_items []" example_items "''top_n''" "PNone"]
    auto_value_resolved [of example_config "''bar_chart''" example_profile
      "resolve_items example_profile example_items []" example_items "''y_col''" "PStr ''auto''"]
    auto_value_resolved [of example_config "''bar_chart''" example_profile
      "resolve_items example_profile example_items []" example_items "''aggregation''" "PNone"]
  by (simp add: get_chart_config_def chart_fragment_example)
     (simp add: example_items_def example_profile_def)

text \<open>
  Claim C1 as stated fails: with a bar chart fragment that has no \<^verbatim>\<open>category_column\<close> key,
  the returned dictionary has no such key either, although the profile has a best
  categorical column.
\<close>

theorem absent_category_counterexample:
  "get_chart_config no_category_config ''bar_chart'' example_profile
     = Inr [(''value_column'', PStr ''revenue'')] \<and>
   map_of [(''value_column'', PStr ''revenue'')] ''category_column''
     \<noteq> Some (opt_str (best_categorical example_profile))"
  by (simp add: get_chart_config_def chart_fragment_def no_category_config_def dict_get_def
        resolve_value_def example_profile_def)


section \<open>Properties of the classifier\<close>

lemma lower_append: "lower (a @ b) = lower a @ lower b" by (simp add: lower_def)

lemma str_in_lower_iff:
  "str_in x (lower s) \<longleftrightarrow> (\<exists>pre w suf. s = pre @ w @ suf \<and> lower w = x)"
proof
  assume "str_in x (lower s)"
  then obtain p q where "map lower_char s = p @ x @ q" by (auto simp: str_in_iff lower_def)
  then obtain us vs where s: "s = us @ vs" and "x @ q = map lower_char vs"
    by (auto simp: map_eq_append_conv)
  then obtain w t where "vs = w @ t" "x = map lower_char w"
    by (auto simp: append_eq_map_conv)
  with s show "\<exists>pre w suf. s = pre @ w @ suf \<and> lower w = x" by (auto simp: lower_def)
next
  assume "\<exists>pre w suf. s = pre @ w @ suf \<and> lower w = x"
  then obtain pre w suf where "lower s = lower pre @ x @ lower suf"
    by (auto simp: lower_append)
  then show "str_in x (lower s)" unfolding str_in_iff by blast
qed

lemma is_date_name_iff:
  "is_date_name name \<longleftrightarrow>
     (\<exists>pre w suf. name = pre @ w @ suf \<and> (lower w = ''date'' \<or> lower w = ''time''))"
  unfolding is_date_name_def str_in_lower_iff by blast

lemma auto_detect_date:
  "auto_detect_columns df = Inr p \<Longrightarrow> date p = filter is_date_name (map cname (columns df))"
  by (auto simp: auto_detect_columns_def Let_def split: sum.splits)

lemma dated_df_profile: "auto_detect_columns dated_df = Inr dated_profile"
  by code_simp

subsection \<open>The threshold in binary64 is the exact threshold\<close>

lemma round_even_cases:
  "round_even m s = m div 2 ^ s \<and> 2 * (m mod 2 ^ s) \<le> 2 ^ s \<or>
   round_even m s = m div 2 ^ s + 1 \<and> 2 ^ s \<le> 2 * (m mod 2 ^ s)"
  by (auto simp: round_even_def Let_def)

lemma round_even_bounds:
  fixes m :: int and s :: nat
  shows "2 * (round_even m s * 2 ^ s) \<le> 2 * m + 2 ^ s"
    and "2 * m \<le> 2 * (round_even m s * 2 ^ s) + 2 ^ s"
proof -
  define p :: int where "p = 2 ^ s"
  define q where "q = m div p"
  define r where "r = m mod p"
  define X where "X = round_even m s * p"
  have p: "0 < p" by (simp add: p_def)
  have m: "m = q * p + r" by (simp add: q_def r_def)
  have r: "0 \<le> r" "r < p" using p by (simp_all add: r_def)
  from round_even_cases [of m s]
  have c: "X = q * p \<and> 2 * r \<le> p \<or> X = q * p + p \<and> p \<le> 2 * r"
    by (auto simp: X_def p_def q_def r_def algebra_simps)
  have "2 * X \<le> 2 * m + p" using c m r by auto
  then show "2 * (round_even m s * 2 ^ s) \<le> 2 * m + 2 ^ s" by (simp add: X_def p_def)
  have "2 * m \<le> 2 * X + p" using c m r by auto
  then show "2 * m \<le> 2 * (round_even m s * 2 ^ s) + 2 ^ s" by (simp add: X_def p_def)
qed

lemma round_even_ge:
  fixes m K :: int
  assumes "2 * (K * 2 ^ s) < 2 * m + 2 ^ s"
  shows "K \<le> round_even m s"
proof (rule ccontr)
  assume "\<not> K \<le> round_even m s"
  then have "round_even m s + 1 \<le> K" by simp
  then have "(round_even m s + 1) * 2 ^ s \<le> K * (2 ^ s :: int)"
    by (rule mult_right_mono) simp
  then have "round_even m s * 2 ^ s + 2 ^ s \<le> K * (2 ^ s :: int)"
    by (simp add: algebra_simps)
  with assms round_even_bounds(2) [of m s] show False by linarith
qed


lemma threshold_rounded:
  fixes n c :: int and s :: nat
  assumes n: "0 \<le> n" "n < 2 ^ 51" and c: "0 \<le> c"
    and lo: "2 ^ s * 2 ^ 52 \<le> n * 5404319552844595"
    and hi: "n * 5404319552844595 < 2 ^ s * 2 ^ 53"
    and s: "s \<le> 54"
  shows "round_even (n * 5404319552844595) s * 2 ^ s < c * 2 ^ 54 \<longleftrightarrow> 3 * n < 10 * c"
proof -
  define Q :: int where "Q = 2 ^ s"
  define P :: int where "P = n * 5404319552844595"
  define X :: int where "X = round_even P s * Q"
  have b1: "2 * X \<le> 2 * P + Q" and b2: "2 * P \<le> 2 * X + Q"
    using round_even_bounds [of P s] by (simp_all add: X_def Q_def)
  have lo': "Q * 4503599627370496 \<le> P" using lo by (simp add: Q_def P_def)
  have hi': "P < Q * 9007199254740992" using hi by (simp add: Q_def P_def)
  have n': "n < 2251799813685248" using n(2) by simp
  have P: "P = n * 5404319552844595" by (simp add: P_def)
  have "X < c * 18014398509481984 \<longleftrightarrow> 3 * n < 10 * c"
  proof (cases "3 * n < 10 * c")
    case True
    with b1 lo' n' P n(1) show ?thesis by linarith
  next
    case False
    show ?thesis
    proof (cases "10 * c < 3 * n")
      case True
      with b2 lo' n' P n(1) c show ?thesis by linarith
    next
      case False
      with \<open>\<not> 3 * n < 10 * c\<close> have e: "10 * c = 3 * n" by simp
      define K :: int where "K = c * 2 ^ (54 - s)"
      have "(2::int) ^ (54 - s) * 2 ^ s = 2 ^ 54"
        using s by (simp flip: power_add)
      then have KQ: "K * Q = c * 18014398509481984"
        by (simp add: K_def Q_def mult.assoc)
      have "2 * (K * Q) < 2 * P + Q" unfolding KQ using e hi' P n(1) c by linarith
      then have "K \<le> round_even P s" unfolding Q_def by (rule round_even_ge)
      then have "K * Q \<le> X" unfolding X_def by (rule mult_right_mono) (simp add: Q_def)
      with KQ e show ?thesis by simp
    qed
  qed
  then show ?thesis by (simp add: X_def P_def Q_def)
qed

lemma bitlen_le_53:
  assumes "0 \<le> x" "x < 2 ^ 53"
  shows "bitlen x \<le> 53"
proof (cases "x = 0")
  case True
  then show ?thesis by simp
next
  case False
  with assms have "0 < x" by simp
  from bitlen_bounds [OF this] assms(2) have "(2::int) ^ nat (bitlen x - 1) < 2 ^ 53" by linarith
  then have "nat (bitlen x - 1) < 53" by (rule power_less_imp_less_exp [rotated]) simp
  then show ?thesis by linarith
qed

lemma float_of_nat_exact: "n < 2 ^ 53 \<Longrightarrow> float_of_nat n = (int n, 0)"
proof -
  assume "n < 2 ^ 53"
  then have "int n < 2 ^ 53" by (metis of_nat_less_iff of_nat_numeral of_nat_power)
  then have "bitlen (int n) \<le> 53" by (intro bitlen_le_53) simp_all
  then show ?thesis by (simp add: float_of_nat_def round53_def)
qed


lemma rat_div_pow_less:
  "(of_int r :: rat) / 2 ^ k < of_int c \<longleftrightarrow> r < c * 2 ^ k"
proof -
  have "(of_int r :: rat) / 2 ^ k < of_int c \<longleftrightarrow> (of_int r :: rat) < of_int (c * 2 ^ k)"
    by (simp add: pos_divide_less_eq)
  then show ?thesis by (simp only: of_int_less_iff)
qed

lemma exceeds_30_percent_iff:
  assumes n: "n < 2 ^ 51" and c: "c \<le> n"
  shows "exceeds_30_percent c n \<longleftrightarrow> 3 * n < 10 * c"
proof -
  define P :: int where "P = int n * 5404319552844595"
  from n have n53: "n < 2 ^ 53"
    by (rule less_trans) simp
  with c have c53: "c < 2 ^ 53" by simp
  have n': "int n < 2251799813685248" using n by simp
  have P0: "0 \<le> P" by (simp add: P_def)
  have ex: "exceeds_30_percent c n \<longleftrightarrow> dy_val (round53 P (- 54)) < of_int (int c)"
    by (simp add: exceeds_30_percent_def float_of_nat_exact [OF n53] float_of_nat_exact [OF c53]
          float_mul_def float_03_def P_def dy_val_def)
  show ?thesis
  proof (cases "bitlen P - 53 \<le> 0")
    case True
    then have r: "round53 P (- 54) = (P, - 54)" by (simp add: round53_def)
    have small: "P < 2 ^ 53"
    proof (cases "P = 0")
      case True
      then show ?thesis by simp
    next
      case False
      with P0 have "0 < P" by simp
      from bitlen_bounds [OF this] have "P < 2 ^ nat (bitlen P)" by simp
      also have "\<dots> \<le> 2 ^ 53" using True by (intro power_increasing) simp_all
      finally show ?thesis .
    qed
    then have "int n \<le> 1" by (simp add: P_def)
    with c have cs: "n = 0 \<and> c = 0 \<or> n = 1 \<and> c = 0 \<or> n = 1 \<and> c = 1" by auto
    have "dy_val (P, - 54) < of_int (int c) \<longleftrightarrow> P < int c * 2 ^ 54"
      using rat_div_pow_less [of P 54 "int c"] by (simp add: dy_val_def)
    with cs show ?thesis unfolding ex r by (auto simp: P_def)
  next
    case False
    define s where "s = nat (bitlen P - 53)"
    from False have s: "int s = bitlen P - 53" "0 < s" by (simp_all add: s_def)
    then have "bitlen P \<noteq> 0" by simp
    then have "P \<noteq> 0" by auto
    with P0 have "0 < P" by simp
    from bitlen_bounds [OF this]
    have b: "2 ^ nat (bitlen P - 1) \<le> P" "P < 2 ^ nat (bitlen P)" by simp_all
    have e1: "nat (bitlen P - 1) = s + 52" and e2: "nat (bitlen P) = s + 53"
      using s by simp_all
    have lo: "2 ^ s * 2 ^ 52 \<le> P" using b(1) unfolding e1 by (simp add: power_add)
    have hi: "P < 2 ^ s * 2 ^ 53" using b(2) unfolding e2 by (simp add: power_add)
    have "P < 2 ^ 104" using n' by (simp add: P_def)
    with lo have "(2::int) ^ (s + 52) < 2 ^ 104" by (simp add: power_add)
    then have "s + 52 < 104" by (rule power_less_imp_less_exp [rotated]) simp
    then have s51: "s \<le> 51" by simp
    have r: "round53 P (- 54) = (round_even P s, - 54 + int s)"
      using False s by (simp add: round53_def s_def)
    have "dy_val (round53 P (- 54)) < of_int (int c) \<longleftrightarrow>
          round_even P s < int c * 2 ^ (54 - s)"
      unfolding r using s51 rat_div_pow_less [of "round_even P s" "54 - s" "int c"]
      by (simp add: dy_val_def nat_diff_distrib)
    also have "\<dots> \<longleftrightarrow> round_even P s * 2 ^ s < (int c * 2 ^ (54 - s)) * 2 ^ s"
      by simp
    also have "(int c * 2 ^ (54 - s)) * 2 ^ s = int c * 2 ^ 54"
      using s51 by (simp add: mult.assoc flip: power_add)
    also have "round_even P s * 2 ^ s < int c * 2 ^ 54 \<longleftrightarrow> 3 * int n < 10 * int c"
      unfolding P_def
      by (rule threshold_rounded) (use n' lo hi s51 in \<open>simp_all add: P_def\<close>)
    finally show ?thesis unfolding ex by linarith
  qed
qed


subsection \<open>Frames with unique column labels\<close>

lemma filter_cname_distinct:
  "distinct (map cname cs) \<Longrightarrow> c \<in> set cs \<Longrightarrow> filter (\<lambda>x. cname x = cname c) cs = [c]"
proof (induction cs)
  case Nil
  then show ?case by simp
next
  case (Cons a cs)
  show ?case
  proof (cases "a = c")
    case True
    from Cons.prems(1) have "cname c \<notin> cname ` set cs" using True by simp
    then have "\<forall>x\<in>set cs. cname x \<noteq> cname c" by (metis imageI)
    then have "filter (\<lambda>x. cname x = cname c) cs = []"
      by (simp add: filter_empty_conv)
    with True show ?thesis by simp
  next
    case False
    with Cons.prems have c: "c \<in> set cs" and d: "distinct (map cname cs)" by auto
    from Cons.prems(1) c have "cname a \<noteq> cname c" by auto
    with Cons.IH [OF d c] show ?thesis by simp
  qed
qed

lemma getitem_distinct:
  "distinct (map cname (columns df)) \<Longrightarrow> c \<in> set (columns df) \<Longrightarrow> getitem df (cname c) = Inr c"
  by (simp add: getitem_def filter_cname_distinct)

lemma valid_columns_distinct:
  assumes "distinct (map cname (columns df))"
  shows "set cs \<subseteq> set (columns df) \<Longrightarrow>
         valid_columns df (map cname cs) =
           Inr (map cname (filter (\<lambda>c. exceeds_30_percent (notna_sum c) (nrows df)) cs))"
proof (induction cs)
  case Nil
  show ?case by simp
next
  case (Cons a cs)
  then have "a \<in> set (columns df)" "set cs \<subseteq> set (columns df)" by auto
  with Cons.IH getitem_distinct [OF assms] show ?case by simp
qed

lemma auto_detect_distinct:
  assumes "distinct (map cname (columns df))"
  shows "auto_detect_columns df =
     Inr \<lparr>numeric = map cname (filter (\<lambda>c. exceeds_30_percent (notna_sum c) (nrows df))
                        (filter (\<lambda>c. dtype c = Number) (columns df))),
          categorical = map cname (filter (\<lambda>c. exceeds_30_percent (notna_sum c) (nrows df))
                        (filter (\<lambda>c. dtype c = Object \<or> dtype c = Category) (columns df))),
          date = filter is_date_name (map cname (columns df)),
          best_numeric = first_or_none (map cname (filter (\<lambda>c. exceeds_30_percent (notna_sum c) (nrows df))
                        (filter (\<lambda>c. dtype c = Number) (columns df)))),
          best_categorical = first_or_none (map cname (filter (\<lambda>c. exceeds_30_percent (notna_sum c) (nrows df))
                        (filter (\<lambda>c. dtype c = Object \<or> dtype c = Category) (columns df))))\<rparr>"
  unfolding auto_detect_columns_def Let_def
  by (simp add: valid_columns_distinct [OF assms])

lemma cname_mem_distinct:
  assumes "distinct (map cname cs)" "c \<in> set cs"
  shows "cname c \<in> set (map cname (filter Q cs)) \<longleftrightarrow> Q c"
proof -
  from assms(1) have "inj_on cname (set cs)" by (simp add: distinct_map)
  with assms(2) show ?thesis by (auto simp: inj_on_def)
qed

lemma notna_sum_le: "notna_sum c \<le> length (cells c)"
  by (simp add: notna_sum_def)

text \<open>
  Claim C10. For a frame with unique column labels a profile is returned, and the date list
  of a returned profile is the frame's column labels, in column order, that contain
  \<^verbatim>\<open>date\<close> or \<^verbatim>\<open>time\<close> in any letter case; neither the cells nor the dtype are looked at,
  and a date-like label can also be in the categorical or the numeric list, as in
  \<^const>\<open>dated_df\<close>.
\<close>

theorem date_list_by_name_only:
  "(distinct (map cname (columns df)) \<longrightarrow> (\<exists>q. auto_detect_columns df = Inr q)) \<and>
   (auto_detect_columns df = Inr p \<longrightarrow>
      date p = filter (\<lambda>name. \<exists>pre w suf. name = pre @ w @ suf \<and>
                         (lower w = ''date'' \<or> lower w = ''time''))
                 (map cname (columns df))) \<and>
   auto_detect_columns dated_df = Inr dated_profile \<and>
   ''order_date'' \<in> set (date dated_profile) \<inter> set (categorical dated_profile) \<and>
   ''Timestamp'' \<in> set (date dated_profile) \<inter> set (numeric dated_profile)"
proof (intro conjI impI)
  assume "distinct (map cname (columns df))"
  then show "\<exists>q. auto_detect_columns df = Inr q"
    by (simp add: auto_detect_distinct)
next
  assume "auto_detect_columns df = Inr p"
  then have "date p = filter is_date_name (map cname (columns df))" by (rule auto_detect_date)
  also have "is_date_name = (\<lambda>name. \<exists>pre w suf. name = pre @ w @ suf \<and>
                         (lower w = ''date'' \<or> lower w = ''time''))"
    by (rule ext) (rule is_date_name_iff)
  finally show "date p = filter (\<lambda>name. \<exists>pre w suf. name = pre @ w @ suf \<and>
                         (lower w = ''date'' \<or> lower w = ''time''))
                 (map cname (columns df))" .
qed (simp_all add: dated_df_profile dated_profile_def)

theorem date_list_by_name_only_witness:
  "distinct (map cname (columns dated_df)) \<and>
   (\<exists>q. auto_detect_columns dated_df = Inr q) \<and>
   date dated_profile =
     filter (\<lambda>name. \<exists>pre w suf. name = pre @ w @ suf \<and>
                         (lower w = ''date'' \<or> lower w = ''time''))
        (map cname (columns dated_df))"
proof -
  have d: "distinct (map cname (columns dated_df))" by (simp add: dated_df_def)
  with date_list_by_name_only [of dated_df dated_profile] show ?thesis
    by (simp add: dated_df_profile)
qed

text \<open>
  Claim C4. For a frame with unique labels, one cell per row and fewer than \<open>2 ^ 51\<close> rows,
  a profile is returned; a column is in its numeric list iff its dtype is numeric and its
  count of non-null cells strictly exceeds 0.30 times the row count (\<open>3 * rows < 10 * count\<close>),
  and likewise for text and categorical dtypes and the categorical list. A column whose
  non-null fraction is exactly 0.30 is in neither list; one whose fraction is 0.3000001 is
  in the list of its kind.
\<close>

theorem valid_iff_exceeds_30_percent:
  assumes "distinct (map cname (columns df))" and "wf_df df" and "nrows df < 2 ^ 51"
    and "c \<in> set (columns df)"
  shows "\<exists>p. auto_detect_columns df = Inr p \<and>
     (cname c \<in> set (numeric p) \<longleftrightarrow>
        dtype c = Number \<and> 3 * nrows df < 10 * notna_sum c) \<and>
     (cname c \<in> set (categorical p) \<longleftrightarrow>
        (dtype c = Object \<or> dtype c = Category) \<and> 3 * nrows df < 10 * notna_sum c) \<and>
     (10 * notna_sum c = 3 * nrows df \<longrightarrow>
        cname c \<notin> set (numeric p) \<and> cname c \<notin> set (categorical p)) \<and>
     (0 < nrows df \<and> 10000000 * notna_sum c = 3000001 * nrows df \<longrightarrow>
        (dtype c = Number \<longrightarrow> cname c \<in> set (numeric p)) \<and>
        (dtype c = Object \<or> dtype c = Category \<longrightarrow> cname c \<in> set (categorical p)))"
proof -
  from assms(2,4) have "length (cells c) = nrows df" by (simp add: wf_df_def list_all_iff)
  with notna_sum_le [of c] have le: "notna_sum c \<le> nrows df" by simp
  have ex: "exceeds_30_percent (notna_sum c) (nrows df) \<longleftrightarrow> 3 * nrows df < 10 * notna_sum c"
    using assms(3) le by (rule exceeds_30_percent_iff)
  have n: "cname c \<in> set (map cname (filter (\<lambda>c. exceeds_30_percent (notna_sum c) (nrows df))
                        (filter (\<lambda>c. dtype c = Number) (columns df)))) \<longleftrightarrow>
           dtype c = Number \<and> 3 * nrows df < 10 * notna_sum c"
    using cname_mem_distinct [OF assms(1,4),
        of "\<lambda>c. dtype c = Number \<and> exceeds_30_percent (notna_sum c) (nrows df)"] ex
    by (simp add: conj_commute)
  have k: "cname c \<in> set (map cname (filter (\<lambda>c. exceeds_30_percent (notna_sum c) (nrows df))
                        (filter (\<lambda>c. dtype c = Object \<or> dtype c = Category) (columns df)))) \<longleftrightarrow>
           (dtype c = Object \<or> dtype c = Category) \<and> 3 * nrows df < 10 * notna_sum c"
    using cname_mem_distinct [OF assms(1,4),
        of "\<lambda>c. (dtype c = Object \<or> dtype c = Category) \<and>
                 exceeds_30_percent (notna_sum c) (nrows df)"] ex
    by (simp add: conj_commute)
  show ?thesis
    unfolding auto_detect_distinct [OF assms(1)]
    by (rule exI, intro conjI, rule refl) (use n k in \<open>simp_all only: profile.simps\<close>, auto)
qed

theorem valid_iff_exceeds_30_percent_witness:
  "\<exists>p. auto_detect_columns threshold_df = Inr p \<and>
       ''exact'' \<notin> set (numeric p) \<and> ''above'' \<in> set (numeric p) \<and>
       ''label'' \<in> set (categorical p) \<and> ''note'' \<notin> set (categorical p)"
proof -
  have d: "distinct (map cname (columns threshold_df))" by (simp add: threshold_df_def)
  have w: "wf_df threshold_df" by (simp add: wf_df_def threshold_df_def)
  have n: "nrows threshold_df < 2 ^ 51" by (simp add: threshold_df_def)
  note t = valid_iff_exceeds_30_percent [OF d w n]
  have m: "columns threshold_df ! 0 \<in> set (columns threshold_df)"
    "columns threshold_df ! 1 \<in> set (columns threshold_df)"
    "columns threshold_df ! 2 \<in> set (columns threshold_df)"
    "columns threshold_df ! 3 \<in> set (columns threshold_df)"
    by (simp_all add: threshold_df_def)
  from t [OF m(1)] obtain p where p: "auto_detect_columns threshold_df = Inr p"
    and e0: "''exact'' \<notin> set (numeric p)"
    by (auto simp: threshold_df_def notna_sum_def)
  from t [OF m(2)] p have e1: "''above'' \<in> set (numeric p)"
    by (auto simp: threshold_df_def notna_sum_def)
  from t [OF m(3)] p have e2: "''label'' \<in> set (categorical p)"
    by (auto simp: threshold_df_def notna_sum_def)
  from t [OF m(4)] p have e3: "''note'' \<notin> set (categorical p)"
    by (auto simp: threshold_df_def notna_sum_def)
  from p e0 e1 e2 e3 show ?thesis by blast
qed


section \<open>Properties of the chart sections\<close>

lemma collect_map_Inr: "collect (map Inr vs) = Inr vs"
  by (induction vs) simp_all

lemma collect_Inr_D: "collect xs = Inr vs \<Longrightarrow> xs = map Inr vs"
proof (induction xs arbitrary: vs)
  case Nil
  then show ?case by simp
next
  case (Cons x xs)
  then show ?case by (auto split: sum.splits)
qed

lemma collect_total:
  "(\<And>x. x \<in> set xs \<Longrightarrow> \<exists>v. f x = Inr v) \<Longrightarrow> \<exists>vs. collect (map f xs) = Inr vs"
proof (induction xs)
  case Nil
  show ?case by simp
next
  case (Cons x xs)
  from Cons.prems obtain v where v: "f x = Inr v" by auto
  from Cons have "\<exists>vs. collect (map f xs) = Inr vs" by auto
  then obtain vs where "collect (map f xs) = Inr vs" ..
  with v show ?case by simp
qed

lemma set_dropna: "set (dropna rows) = {(k, v). (k, Some v) \<in> set rows}"
  by (induction rows rule: dropna.induct) auto

lemma mset_sort_desc: "mset (sort_desc rows) = mset rows"
  by (simp add: sort_desc_def)

lemma length_sort_desc: "length (sort_desc rows) = length rows"
  by (simp add: sort_desc_def)

lemma sorted_sort_desc: "sorted_wrt (\<lambda>a b. b \<le> a) (map snd (sort_desc rows))"
proof -
  have "sorted (map snd (sort_key snd (rev rows)))" by (rule sorted_sort_key)
  then have "sorted_wrt (\<lambda>a b. b \<le> a) (rev (map snd (sort_key snd (rev rows))))"
    by (simp add: sorted_wrt_rev)
  then show ?thesis by (simp add: sort_desc_def rev_map)
qed

lemma sorted_desc_take_drop:
  assumes "sorted_wrt (\<lambda>a b. b \<le> a) (map snd xs)"
    and "x \<in> set (take m xs)" and "y \<in> set (drop m xs)"
  shows "snd y \<le> snd x"
proof -
  have "xs = take m xs @ drop m xs" by simp
  then have "sorted_wrt (\<lambda>a b. b \<le> a) (map snd (take m xs) @ map snd (drop m xs))"
    using assms(1) by (metis map_append)
  with assms(2,3) show ?thesis by (auto simp: sorted_wrt_append)
qed


lemma nums_of_total: "\<forall>x\<in>set xs. \<forall>s. x \<noteq> Txt s \<Longrightarrow> \<exists>vs. nums_of xs = Inr vs"
  by (induction xs rule: nums_of.induct) auto

lemma series_agg_total:
  assumes "\<forall>x\<in>set xs. \<forall>s. x \<noteq> Txt s" and "name = ''sum'' \<or> name = ''mean''"
  shows "\<exists>v. series_agg name xs = Inr v"
proof -
  from nums_of_total [OF assms(1)] obtain vs where "nums_of xs = Inr vs" ..
  with assms(2) show ?thesis by (auto simp: series_agg_def)
qed

lemma series_agg_sum_Some:
  "series_agg ''sum'' xs = Inr v \<Longrightarrow> v \<noteq> None"
  by (auto simp: series_agg_def split: sum.splits)

lemma set_group_cells: "set (group_cells kc vc k) \<subseteq> set (cells vc)"
  by (auto simp: group_cells_def dest: set_zip_rightD)

lemma collect_keyed_fst:
  "collect (map (\<lambda>k. case g k of Inl e \<Rightarrow> Inl e | Inr v \<Rightarrow> Inr (k, v)) ks) = Inr rows
   \<Longrightarrow> map fst rows = ks"
proof (induction ks arbitrary: rows)
  case Nil
  then show ?case by simp
next
  case (Cons k ks)
  then show ?case by (auto split: sum.splits)
qed

lemma group_agg_keys:
  assumes "getitem df cat_col = Inr kc" and "group_agg df cat_col val_col agg = Inr a"
  shows "map fst a = group_keys kc"
proof (cases "agg = PStr ''count''")
  case True
  with assms show ?thesis
    by (auto simp: group_agg_def comp_def split: if_splits)
next
  case False
  with assms show ?thesis
    by (auto simp: group_agg_def split: sum.splits pyval.splits if_splits
             dest: collect_keyed_fst)
qed

lemma group_agg_total:
  assumes "getitem df cat_col = Inr kc" and "getitem df val_col = Inr vc"
    and "cat_col \<noteq> val_col"
    and "agg = PStr ''sum'' \<or> agg = PStr ''mean'' \<or> agg = PStr ''count''"
    and "\<forall>x\<in>set (cells vc). \<forall>s. x \<noteq> Txt s"
  shows "\<exists>a. group_agg df cat_col val_col agg = Inr a"
proof (cases "agg = PStr ''count''")
  case True
  with assms(1,3) show ?thesis by (auto simp: group_agg_def)
next
  case False
  with assms(4) obtain name where agg: "agg = PStr name"
    and name: "name = ''sum'' \<or> name = ''mean''" by auto
  have "\<exists>v. (case series_agg name (group_cells kc vc k) of
               Inl e \<Rightarrow> Inl e | Inr v \<Rightarrow> Inr (k, v)) = Inr v" for k
  proof -
    from assms(5) set_group_cells [of kc vc k]
    have "\<forall>x\<in>set (group_cells kc vc k). \<forall>s. x \<noteq> Txt s" by blast
    from series_agg_total [OF this name] show ?thesis by auto
  qed
  then have "\<exists>rows. collect (map (\<lambda>k. case series_agg name (group_cells kc vc k) of
               Inl e \<Rightarrow> Inl e | Inr v \<Rightarrow> Inr (k, v)) (group_keys kc)) = Inr rows"
    by (intro collect_total) blast
  then obtain rows where "collect (map (\<lambda>k. case series_agg name (group_cells kc vc k) of
               Inl e \<Rightarrow> Inl e | Inr v \<Rightarrow> Inr (k, v)) (group_keys kc)) = Inr rows" ..
  with assms(1,2,3) False agg show ?thesis by (simp add: group_agg_def)
qed

lemma top_rows:
  fixes S :: "(cell \<times> rat) list"
  assumes "sorted_wrt (\<lambda>a b. b \<le> a) (map snd S)"
  shows "sorted_wrt (\<lambda>a b. b \<le> a) (map snd (take m S))"
    and "mset (take m S) \<subseteq># mset S"
    and "\<forall>x\<in>#(mset S - mset (take m S)). \<forall>r\<in>set (take m S). snd x \<le> snd r"
proof -
  show "sorted_wrt (\<lambda>a b. b \<le> a) (map snd (take m S))"
    using assms by (simp add: take_map [symmetric] sorted_wrt_take)
  have split: "mset S = mset (take m S) + mset (drop m S)"
    by (metis append_take_drop_id mset_append)
  then show "mset (take m S) \<subseteq># mset S" by simp
  from split have "mset S - mset (take m S) = mset (drop m S)" by simp
  then show "\<forall>x\<in>#(mset S - mset (take m S)). \<forall>r\<in>set (take m S). snd x \<le> snd r"
    using sorted_desc_take_drop [OF assms] by auto
qed

lemma bar_data_props:
  assumes g: "group_agg df cat_col val_col agg = Inr agg_data" and n: "as_int top_n = Inr n"
  shows "\<exists>rows. bar_data df cat_col val_col agg top_n = Inr rows \<and>
        sorted_wrt (\<lambda>a b. b \<le> a) (map snd rows) \<and>
        mset rows \<subseteq># mset (dropna agg_data) \<and>
        (\<forall>r\<in>set rows. (fst r, Some (snd r)) \<in> set agg_data) \<and>
        (\<forall>x\<in>#(mset (dropna agg_data) - mset rows). \<forall>r\<in>set rows. snd x \<le> snd r) \<and>
        (0 < n \<longrightarrow> length rows \<le> nat n \<and>
                   length rows = min (nat n) (length (dropna agg_data))) \<and>
        (n \<le> 0 \<longrightarrow> mset rows = mset (dropna agg_data))"
proof -
  define S where "S = sort_desc (dropna agg_data)"
  define rows where "rows = (if 0 < n then take (nat n) S else S)"
  have b: "bar_data df cat_col val_col agg top_n = Inr rows"
    using g n by (simp add: bar_data_def rows_def S_def head_def)
  have sS: "sorted_wrt (\<lambda>a b. b \<le> a) (map snd S)" unfolding S_def by (rule sorted_sort_desc)
  have mS: "mset S = mset (dropna agg_data)" unfolding S_def by (rule mset_sort_desc)
  have lS: "length S = length (dropna agg_data)" unfolding S_def by (rule length_sort_desc)
  have 1: "sorted_wrt (\<lambda>a b. b \<le> a) (map snd rows)"
    using sS top_rows(1) [OF sS] by (simp add: rows_def)
  have 2: "mset rows \<subseteq># mset (dropna agg_data)"
    using top_rows(2) [OF sS] by (simp add: rows_def mS)
  have 3: "\<forall>r\<in>set rows. (fst r, Some (snd r)) \<in> set agg_data"
  proof
    fix r assume "r \<in> set rows"
    then have "r \<in># mset rows" by simp
    with 2 have "r \<in># mset (dropna agg_data)" by (rule mset_subset_eqD)
    then have "r \<in> set (dropna agg_data)" by simp
    then show "(fst r, Some (snd r)) \<in> set agg_data" by (auto simp: set_dropna)
  qed
  have 4: "\<forall>x\<in>#(mset (dropna agg_data) - mset rows). \<forall>r\<in>set rows. snd x \<le> snd r"
    using top_rows(3) [OF sS, of "nat n"] by (simp add: rows_def mS)
  have 5: "0 < n \<longrightarrow> length rows \<le> nat n \<and> length rows = min (nat n) (length (dropna agg_data))"
    by (auto simp: rows_def lS)
  have 6: "n \<le> 0 \<longrightarrow> mset rows = mset (dropna agg_data)"
    by (simp add: rows_def mS)
  from b 1 2 3 4 5 6 show ?thesis by blast
qed

lemma bar_chart_SomeD:
  assumes "bar_chart config df detected = Inr (Some ch)"
  shows "\<exists>bar_conf. get_chart_config config ''bar_chart'' detected = Inr bar_conf \<and>
           dict_get bar_conf ''category_column'' PNone = PStr (key_field ch) \<and>
           dict_get bar_conf ''value_column'' PNone = PStr (value_field ch) \<and>
           bar_data df (key_field ch) (value_field ch)
             (dict_get bar_conf ''aggregation'' (PStr ''sum''))
             (dict_get bar_conf ''top_n'' (PInt 15)) = Inr (table ch)"
proof -
  from assms obtain bar_conf where c: "get_chart_config config ''bar_chart'' detected = Inr bar_conf"
    by (cases "get_chart_config config ''bar_chart'' detected") (simp_all add: bar_chart_def)
  from assms c obtain cat_col where k: "as_label (dict_get bar_conf ''category_column'' PNone) = Inr cat_col"
    by (cases "as_label (dict_get bar_conf ''category_column'' PNone)")
       (auto simp: bar_chart_def split: sum.splits if_splits)
  from assms c k obtain val_col where v: "as_label (dict_get bar_conf ''value_column'' PNone) = Inr val_col"
    by (cases "as_label (dict_get bar_conf ''value_column'' PNone)")
       (auto simp: bar_chart_def split: sum.splits if_splits)
  have lab: "as_label x = Inr l \<Longrightarrow> x = PStr l" for x l by (cases x) simp_all
  from assms c k v have "key_field ch = cat_col \<and> value_field ch = val_col \<and>
      bar_data df cat_col val_col (dict_get bar_conf ''aggregation'' (PStr ''sum''))
             (dict_get bar_conf ''top_n'' (PInt 15)) = Inr (table ch)"
    by (auto simp: bar_chart_def split: sum.splits if_splits)
  with c lab [OF k] lab [OF v] show ?thesis by auto
qed

lemma getitem_scenario:
  "getitem scenario_df ''region'' = Inr (columns scenario_df ! 0)"
  "getitem scenario_df ''status'' = Inr (columns scenario_df ! 1)"
  "getitem scenario_df ''revenue'' = Inr (columns scenario_df ! 2)"
  "getitem scenario_df ''profit'' = Inr (columns scenario_df ! 3)"
  by (simp_all add: getitem_def scenario_df_def)

text \<open>
  Claim C6. For the aggregations in the model and a numeric value column the aggregated
  table exists, with one row per group. From any aggregated table and integer top-N the
  bar chart rows exist; they are sorted by aggregate in descending order, they are
  groups of the table with a non-null aggregate, every such group that is left out has an
  aggregate no greater than those kept, and there are at most N of them when N is positive
  and all of them when N is not. The bar chart section passes exactly these rows on, with
  N = 15 when \<^verbatim>\<open>top_n\<close> is not configured.
\<close>

theorem bar_rows_sorted_and_capped:
  "(getitem df cat_col = Inr kc \<and> getitem df val_col = Inr vc \<and> cat_col \<noteq> val_col \<and>
    (agg = PStr ''sum'' \<or> agg = PStr ''mean'' \<or> agg = PStr ''count'') \<and>
    (\<forall>x\<in>set (cells vc). \<forall>s. x \<noteq> Txt s) \<longrightarrow>
      (\<exists>a. group_agg df cat_col val_col agg = Inr a \<and> map fst a = group_keys kc)) \<and>
   (group_agg df cat_col val_col agg = Inr agg_data \<and> as_int top_n = Inr n \<longrightarrow>
      (\<exists>rows. bar_data df cat_col val_col agg top_n = Inr rows \<and>
        sorted_wrt (\<lambda>a b. b \<le> a) (map snd rows) \<and>
        mset rows \<subseteq># mset (dropna agg_data) \<and>
        (\<forall>r\<in>set rows. (fst r, Some (snd r)) \<in> set agg_data) \<and>
        (\<forall>x\<in>#(mset (dropna agg_data) - mset rows). \<forall>r\<in>set rows. snd x \<le> snd r) \<and>
        (0 < n \<longrightarrow> length rows \<le> nat n \<and>
                   length rows = min (nat n) (length (dropna agg_data))) \<and>
        (n \<le> 0 \<longrightarrow> mset rows = mset (dropna agg_data)))) \<and>
   (bar_chart config df detected = Inr (Some ch) \<longrightarrow>
      (\<exists>bar_conf. get_chart_config config ''bar_chart'' detected = Inr bar_conf \<and>
         bar_data df (key_field ch) (value_field ch)
           (dict_get bar_conf ''aggregation'' (PStr ''sum''))
           (dict_get bar_conf ''top_n'' (PInt 15)) = Inr (table ch)))"
proof (intro conjI impI)
  assume a: "getitem df cat_col = Inr kc \<and> getitem df val_col = Inr vc \<and> cat_col \<noteq> val_col \<and>
    (agg = PStr ''sum'' \<or> agg = PStr ''mean'' \<or> agg = PStr ''count'') \<and>
    (\<forall>x\<in>set (cells vc). \<forall>s. x \<noteq> Txt s)"
  then have a1: "getitem df cat_col = Inr kc" and a2: "getitem df val_col = Inr vc"
    and a3: "cat_col \<noteq> val_col"
    and a4: "agg = PStr ''sum'' \<or> agg = PStr ''mean'' \<or> agg = PStr ''count''"
    and a5: "\<forall>x\<in>set (cells vc). \<forall>s. x \<noteq> Txt s" by simp_all
  from group_agg_total [OF a1 a2 a3 a4 a5]
  obtain a' where g: "group_agg df cat_col val_col agg = Inr a'" ..
  from group_agg_keys [OF a1 g] have "map fst a' = group_keys kc" .
  with g show "\<exists>a. group_agg df cat_col val_col agg = Inr a \<and> map fst a = group_keys kc"
    by (intro exI conjI)
next
  assume "group_agg df cat_col val_col agg = Inr agg_data \<and> as_int top_n = Inr n"
  then have g: "group_agg df cat_col val_col agg = Inr agg_data" and n: "as_int top_n = Inr n"
    by simp_all
  show "\<exists>rows. bar_data df cat_col val_col agg top_n = Inr rows \<and>
        sorted_wrt (\<lambda>a b. b \<le> a) (map snd rows) \<and>
        mset rows \<subseteq># mset (dropna agg_data) \<and>
        (\<forall>r\<in>set rows. (fst r, Some (snd r)) \<in> set agg_data) \<and>
        (\<forall>x\<in>#(mset (dropna agg_data) - mset rows). \<forall>r\<in>set rows. snd x \<le> snd r) \<and>
        (0 < n \<longrightarrow> length rows \<le> nat n \<and>
                   length rows = min (nat n) (length (dropna agg_data))) \<and>
        (n \<le> 0 \<longrightarrow> mset rows = mset (dropna agg_data))"
    by (rule bar_data_props [OF g n])
next
  assume "bar_chart config df detected = Inr (Some ch)"
  from bar_chart_SomeD [OF this]
  obtain bar_conf where "get_chart_config config ''bar_chart'' detected = Inr bar_conf"
    and "bar_data df (key_field ch) (value_field ch)
           (dict_get bar_conf ''aggregation'' (PStr ''sum''))
           (dict_get bar_conf ''top_n'' (PInt 15)) = Inr (table ch)"
    by (elim exE conjE)
  then show "\<exists>bar_conf. get_chart_config config ''bar_chart'' detected = Inr bar_conf \<and>
         bar_data df (key_field ch) (value_field ch)
           (dict_get bar_conf ''aggregation'' (PStr ''sum''))
           (dict_get bar_conf ''top_n'' (PInt 15)) = Inr (table ch)"
    by (intro exI conjI)
qed

theorem bar_rows_sorted_and_capped_witness:
  "\<exists>rows. bar_data scenario_df ''region'' ''revenue'' (PStr ''sum'') (PInt 15) = Inr rows \<and>
     sorted_wrt (\<lambda>a b. b \<le> a) (map snd rows) \<and> length rows \<le> 15"
proof -
  have c: "\<forall>x\<in>set (cells (columns scenario_df ! 2)). \<forall>s. x \<noteq> Txt s"
    by (simp add: scenario_df_def)
  have h: "getitem scenario_df ''region'' = Inr (columns scenario_df ! 0) \<and>
      getitem scenario_df ''revenue'' = Inr (columns scenario_df ! 2) \<and>
      ''region'' \<noteq> ''revenue'' \<and>
      (PStr ''sum'' = PStr ''sum'' \<or> PStr ''sum'' = PStr ''mean'' \<or> PStr ''sum'' = PStr ''count'') \<and>
      (\<forall>x\<in>set (cells (columns scenario_df ! 2)). \<forall>s. x \<noteq> Txt s)"
    using c by (simp add: getitem_scenario)
  from bar_rows_sorted_and_capped
         [where df = scenario_df and cat_col = "''region''" and val_col = "''revenue''"
            and kc = "columns scenario_df ! 0" and vc = "columns scenario_df ! 2"
            and agg = "PStr ''sum''", THEN conjunct1, THEN mp, OF h]
  obtain a where a: "group_agg scenario_df ''region'' ''revenue'' (PStr ''sum'') = Inr a"
    by (elim exE conjE)
  have n: "as_int (PInt 15) = Inr 15" by simp
  from bar_rows_sorted_and_capped
         [where df = scenario_df and cat_col = "''region''" and val_col = "''revenue''"
            and agg = "PStr ''sum''" and agg_data = a and top_n = "PInt 15" and n = 15,
          THEN conjunct2, THEN conjunct1, THEN mp, OF conjI [OF a n]]
  obtain rows where "bar_data scenario_df ''region'' ''revenue'' (PStr ''sum'') (PInt 15) = Inr rows"
    and "sorted_wrt (\<lambda>a b. b \<le> a) (map snd rows)" and "0 < (15::int) \<longrightarrow> length rows \<le> nat 15 \<and>
          length rows = min (nat 15) (length (dropna a))"
    by (elim exE conjE)
  then show ?thesis by (intro exI [of _ rows]) simp
qed




lemma pie_chart_SomeD:
  assumes "pie_chart config df detected = Inr (Some ch)"
  shows "\<exists>pie_conf cat0. get_chart_config config ''pie_chart'' detected = Inr pie_conf \<and>
           dict_get pie_conf ''category_column'' PNone = PStr cat0 \<and>
           dict_get pie_conf ''value_column'' PNone = PStr (value_field ch) \<and>
           pie_category df detected cat0 = Inr (key_field ch) \<and>
           pie_data df (key_field ch) (value_field ch)
             (dict_get pie_conf ''aggregation'' (PStr ''sum''))
             (dict_get pie_conf ''top_n'' (PInt 10)) = Inr (table ch)"
proof -
  from assms obtain pie_conf where c: "get_chart_config config ''pie_chart'' detected = Inr pie_conf"
    by (cases "get_chart_config config ''pie_chart'' detected") (simp_all add: pie_chart_def)
  from assms c obtain cat0 where k: "as_label (dict_get pie_conf ''category_column'' PNone) = Inr cat0"
    by (cases "as_label (dict_get pie_conf ''category_column'' PNone)")
       (auto simp: pie_chart_def split: sum.splits if_splits)
  from assms c k obtain val_col where v: "as_label (dict_get pie_conf ''value_column'' PNone) = Inr val_col"
    by (cases "as_label (dict_get pie_conf ''value_column'' PNone)")
       (auto simp: pie_chart_def split: sum.splits if_splits)
  from assms c k v obtain cat_col where p: "pie_category df detected cat0 = Inr cat_col"
    by (cases "pie_category df detected cat0")
       (auto simp: pie_chart_def split: sum.splits if_splits)
  have lab: "as_label x = Inr l \<Longrightarrow> x = PStr l" for x l by (cases x) simp_all
  from assms c k v p have "key_field ch = cat_col \<and> value_field ch = val_col \<and>
      pie_data df cat_col val_col (dict_get pie_conf ''aggregation'' (PStr ''sum''))
             (dict_get pie_conf ''top_n'' (PInt 10)) = Inr (table ch)"
    by (auto simp: pie_chart_def split: sum.splits if_splits)
  with c lab [OF k] lab [OF v] p show ?thesis by auto
qed






lemma collect_sum_all_Some:
  "collect (map (\<lambda>yc. series_agg ''sum'' (g yc)) ycs) = Inr vs \<Longrightarrow> list_all (\<lambda>v. v \<noteq> None) vs"
proof (induction ycs arbitrary: vs)
  case Nil
  then show ?case by simp
next
  case (Cons yc ycs)
  then show ?case by (auto split: sum.splits dest: series_agg_sum_Some)
qed

lemma collect_keyed_all:
  "collect (map (\<lambda>k. case g k of Inl e \<Rightarrow> Inl e | Inr v \<Rightarrow> Inr (k, v)) ks) = Inr rows
   \<Longrightarrow> \<forall>r\<in>set rows. g (fst r) = Inr (snd r)"
proof (induction ks arbitrary: rows)
  case Nil
  then show ?case by simp
next
  case (Cons k ks)
  then show ?case by (auto split: sum.splits)
qed

lemma line_group_keys:
  assumes "getitem df x_col = Inr kc" and "line_group df x_col y_cols = Inr rows"
  shows "map fst rows = group_keys kc" and "\<forall>r\<in>set rows. list_all (\<lambda>v. v \<noteq> None) (snd r)"
proof -
  from assms obtain ycs where y: "collect (map (getitem df) y_cols) = Inr ycs"
    by (cases "collect (map (getitem df) y_cols)") (simp_all add: line_group_def)
  from assms y have c: "collect
        (map (\<lambda>k. case collect (map (\<lambda>yc. series_agg ''sum'' (group_cells kc yc k)) ycs) of
                    Inl e \<Rightarrow> Inl e | Inr vs \<Rightarrow> Inr (k, vs)) (group_keys kc)) = Inr rows"
    by (auto simp: line_group_def split: sum.splits if_splits)
  from collect_keyed_fst [OF c] show "map fst rows = group_keys kc" .
  from collect_keyed_all [OF c]
  have k: "\<forall>r\<in>set rows. collect (map (\<lambda>yc. series_agg ''sum'' (group_cells kc yc (fst r))) ycs)
          = Inr (snd r)" .
  show "\<forall>r\<in>set rows. list_all (\<lambda>v. v \<noteq> None) (snd r)"
  proof
    fix r assume "r \<in> set rows"
    with k have "collect (map (\<lambda>yc. series_agg ''sum'' (group_cells kc yc (fst r))) ycs)
          = Inr (snd r)" by blast
    then show "list_all (\<lambda>v. v \<noteq> None) (snd r)" by (rule collect_sum_all_Some)
  qed
qed

lemma map_fst_dropna_rows:
  "\<forall>r\<in>set rows. list_all (\<lambda>v. v \<noteq> None) (snd r) \<Longrightarrow> map fst (dropna_rows rows) = map fst rows"
  by (simp add: dropna_rows_def comp_def filter_id_conv)

lemma line_data_keys:
  assumes "getitem df x_col = Inr kc" and "line_data df x_col y_cols = Inr d"
  shows "map fst d = take 20 (group_keys kc)"
proof -
  from assms(2) obtain rows where r: "line_group df x_col y_cols = Inr rows"
    and d: "d = head 20 (dropna_rows rows)"
    by (cases "line_group df x_col y_cols") (auto simp: line_data_def)
  from line_group_keys [OF assms(1) r] map_fst_dropna_rows [of rows]
  have "map fst (dropna_rows rows) = group_keys kc" by simp
  then have "take 20 (map fst (dropna_rows rows)) = take 20 (group_keys kc)" by simp
  then show ?thesis by (simp add: d head_def take_map)
qed

lemma line_group_total:
  assumes "getitem df x_col = Inr kc"
    and "\<forall>y\<in>set y_cols. \<exists>yc. getitem df y = Inr yc \<and> (\<forall>x\<in>set (cells yc). \<forall>s. x \<noteq> Txt s)"
    and "x_col \<notin> set y_cols"
  shows "\<exists>rows. line_group df x_col y_cols = Inr rows"
proof -
  from assms(2) have "\<exists>ycs. collect (map (getitem df) y_cols) = Inr ycs"
    by (intro collect_total) blast
  then obtain ycs where y: "collect (map (getitem df) y_cols) = Inr ycs" ..
  from collect_Inr_D [OF y] have "map (getitem df) y_cols = map Inr ycs" .
  then have "\<forall>yc\<in>set ycs. \<exists>y\<in>set y_cols. getitem df y = Inr yc"
    by (metis (no_types, lifting) imageE image_eqI list.set_map)
  with assms(2) have num: "\<forall>yc\<in>set ycs. \<forall>x\<in>set (cells yc). \<forall>s. x \<noteq> Txt s"
    by (metis sum.inject(2))
  have inner: "\<exists>vs. collect (map (\<lambda>yc. series_agg ''sum'' (group_cells kc yc k)) ycs) = Inr vs" for k
  proof (rule collect_total)
    fix yc assume "yc \<in> set ycs"
    with num set_group_cells [of kc yc k]
    have "\<forall>x\<in>set (group_cells kc yc k). \<forall>s. x \<noteq> Txt s" by blast
    then show "\<exists>v. series_agg ''sum'' (group_cells kc yc k) = Inr v"
      by (rule series_agg_total) simp
  qed
  have "\<exists>rows. collect
        (map (\<lambda>k. case collect (map (\<lambda>yc. series_agg ''sum'' (group_cells kc yc k)) ycs) of
                    Inl e \<Rightarrow> Inl e | Inr vs \<Rightarrow> Inr (k, vs)) (group_keys kc)) = Inr rows"
  proof (rule collect_total)
    fix k
    from inner [of k] obtain vs where
      "collect (map (\<lambda>yc. series_agg ''sum'' (group_cells kc yc k)) ycs) = Inr vs" ..
    then show "\<exists>v. (case collect (map (\<lambda>yc. series_agg ''sum'' (group_cells kc yc k)) ycs) of
                    Inl e \<Rightarrow> Inl e | Inr vs \<Rightarrow> Inr (k, vs)) = Inr v" by simp
  qed
  then obtain rows where "collect
        (map (\<lambda>k. case collect (map (\<lambda>yc. series_agg ''sum'' (group_cells kc yc k)) ycs) of
                    Inl e \<Rightarrow> Inl e | Inr vs \<Rightarrow> Inr (k, vs)) (group_keys kc)) = Inr rows" ..
  with assms(1,3) y show ?thesis by (simp add: line_group_def)
qed

lemma group_keys_props:
  "sorted (map cell_key (group_keys kc))" "distinct (group_keys kc)"
  "set (group_keys kc) = set (cells kc) - {NA}"
  by (auto simp: group_keys_def sorted_sort_key)

lemma sorted_take_le_rest:
  assumes "sorted (map f K)" and "k \<in> set K" and "k \<notin> set (take m K)" and "k' \<in> set (take m K)"
  shows "f k' \<le> f k"
proof -
  have K: "K = take m K @ drop m K" by simp
  with assms(2,3) have "k \<in> set (drop m K)" by (metis Un_iff set_append)
  moreover from assms(1) K have "sorted (map f (take m K) @ map f (drop m K))"
    by (metis map_append)
  ultimately show ?thesis using assms(4) by (auto simp: sorted_append)
qed

lemma getitem_order:
  "getitem order_df ''k'' = Inr (columns order_df ! 0)"
  "getitem order_df ''v'' = Inr (columns order_df ! 1)"
  "getitem order_df ''w'' = Inr (columns order_df ! 2)"
  by (simp_all add: getitem_def order_df_def)

text \<open>
  Claim C3, as the code has it. The grouped rows of the line chart are in ascending order
  of the group key, because \<^verbatim>\<open>groupby\<close> sorts its keys (numbers before texts, numbers by
  value, texts by code point); the groups retained are the first 20 in that order, and every
  group that is dropped has a key no smaller than the keys retained. For an existing x
  column, existing y columns without text cells and an x label that is not a y label, the
  grouped rows exist.
\<close>

theorem line_groups_in_key_order:
  "(getitem df x_col = Inr kc \<and>
    (\<forall>y\<in>set y_cols. \<exists>yc. getitem df y = Inr yc \<and> (\<forall>x\<in>set (cells yc). \<forall>s. x \<noteq> Txt s)) \<and>
    x_col \<notin> set y_cols \<longrightarrow> (\<exists>rows. line_data df x_col y_cols = Inr rows)) \<and>
   (getitem df x_col = Inr kc \<and> line_data df x_col y_cols = Inr d \<longrightarrow>
      map fst d = take 20 (group_keys kc) \<and>
      sorted (map cell_key (group_keys kc)) \<and> distinct (group_keys kc) \<and>
      set (group_keys kc) = set (cells kc) - {NA} \<and>
      (\<forall>k\<in>set (cells kc) - {NA} - fst ` set d. \<forall>k'\<in>fst ` set d. cell_key k' \<le> cell_key k))"
proof (intro conjI impI)
  assume "getitem df x_col = Inr kc \<and>
    (\<forall>y\<in>set y_cols. \<exists>yc. getitem df y = Inr yc \<and> (\<forall>x\<in>set (cells yc). \<forall>s. x \<noteq> Txt s)) \<and>
    x_col \<notin> set y_cols"
  then have 1: "getitem df x_col = Inr kc"
    and 2: "\<forall>y\<in>set y_cols. \<exists>yc. getitem df y = Inr yc \<and> (\<forall>x\<in>set (cells yc). \<forall>s. x \<noteq> Txt s)"
    and 3: "x_col \<notin> set y_cols" by simp_all
  from line_group_total [OF 1 2 3] obtain rows where "line_group df x_col y_cols = Inr rows" ..
  then show "\<exists>rows. line_data df x_col y_cols = Inr rows" by (simp add: line_data_def)
next
  assume a: "getitem df x_col = Inr kc \<and> line_data df x_col y_cols = Inr d"
  then have a1: "getitem df x_col = Inr kc" and a2: "line_data df x_col y_cols = Inr d"
    by simp_all
  show "map fst d = take 20 (group_keys kc)" by (rule line_data_keys [OF a1 a2])
  show "sorted (map cell_key (group_keys kc))" by (rule group_keys_props)
  show "distinct (group_keys kc)" by (rule group_keys_props)
  show "set (group_keys kc) = set (cells kc) - {NA}" by (rule group_keys_props)
  have "set (map fst d) = set (take 20 (group_keys kc))"
    by (simp only: line_data_keys [OF a1 a2])
  then have m: "fst ` set d = set (take 20 (group_keys kc))" by simp
  show "\<forall>k\<in>set (cells kc) - {NA} - fst ` set d. \<forall>k'\<in>fst ` set d. cell_key k' \<le> cell_key k"
  proof (intro ballI)
    fix k k' assume k: "k \<in> set (cells kc) - {NA} - fst ` set d" and k': "k' \<in> fst ` set d"
    from k have "k \<in> set (group_keys kc)" by (simp add: group_keys_props)
    moreover from k m have "k \<notin> set (take 20 (group_keys kc))" by simp
    moreover from k' m have "k' \<in> set (take 20 (group_keys kc))" by simp
    ultimately show "cell_key k' \<le> cell_key k"
      using sorted_take_le_rest [OF group_keys_props(1)] by blast
  qed
qed

theorem line_groups_in_key_order_witness:
  "\<exists>d. line_data order_df ''k'' [''v'', ''w''] = Inr d \<and>
       map fst d = take 20 (group_keys (columns order_df ! 0))"
proof -
  have n: "\<forall>y\<in>set [''v'', ''w'']. \<exists>yc. getitem order_df y = Inr yc \<and>
             (\<forall>x\<in>set (cells yc). \<forall>s. x \<noteq> Txt s)"
    by (simp add: getitem_order) (simp add: order_df_def)
  have h: "getitem order_df ''k'' = Inr (columns order_df ! 0) \<and>
           (\<forall>y\<in>set [''v'', ''w'']. \<exists>yc. getitem order_df y = Inr yc \<and>
             (\<forall>x\<in>set (cells yc). \<forall>s. x \<noteq> Txt s)) \<and> ''k'' \<notin> set [''v'', ''w'']"
    using n by (simp add: getitem_order)
  from line_groups_in_key_order
         [where df = order_df and x_col = "''k''" and kc = "columns order_df ! 0"
            and y_cols = "[''v'', ''w'']", THEN conjunct1, THEN mp, OF h]
  obtain d where d: "line_data order_df ''k'' [''v'', ''w''] = Inr d" ..
  from line_groups_in_key_order
         [where df = order_df and x_col = "''k''" and kc = "columns order_df ! 0"
            and y_cols = "[''v'', ''w'']" and d = d, THEN conjunct2, THEN mp,
          OF conjI [OF getitem_order(1) d]]
  have "map fst d = take 20 (group_keys (columns order_df ! 0))" by (rule conjunct1)
  with d show ?thesis by (intro exI conjI)
qed

text \<open>
  Claim C3 as stated fails: in \<^const>\<open>order_df\<close> the first 20 groups in row order are
  \<^verbatim>\<open>u\<close>, \<^verbatim>\<open>a\<close>, ..., \<^verbatim>\<open>s\<close>; the code retains \<^verbatim>\<open>a\<close>, ..., \<^verbatim>\<open>t\<close>, dropping the group of the first
  row and keeping the group of the last.
\<close>

theorem line_row_order_counterexample:
  "line_data order_df ''k'' [''v'', ''w''] =
     Inr [(Txt ''a'', [2, 2]), (Txt ''b'', [3, 0]), (Txt ''c'', [4, 1]),
          (Txt ''d'', [5, 2]), (Txt ''e'', [6, 0]), (Txt ''f'', [7, 1]),
          (Txt ''g'', [8, 2]), (Txt ''h'', [9, 0]), (Txt ''i'', [10, 1]),
          (Txt ''j'', [11, 2]), (Txt ''k'', [12, 0]), (Txt ''l'', [13, 1]),
          (Txt ''m'', [14, 2]), (Txt ''n'', [15, 0]), (Txt ''o'', [16, 1]),
          (Txt ''p'', [17, 2]), (Txt ''q'', [18, 0]), (Txt ''r'', [19, 1]),
          (Txt ''s'', [20, 2]), (Txt ''t'', [21, 0])] \<and>
   take 20 (row_order_keys (columns order_df ! 0)) =
     map Txt [''u'', ''a'', ''b'', ''c'', ''d'', ''e'', ''f'', ''g'', ''h'', ''i'', ''j'',
            ''k'', ''l'', ''m'', ''n'', ''o'', ''p'', ''q'', ''r'', ''s''] \<and>
   map Txt [''a'', ''b'', ''c'', ''d'', ''e'', ''f'', ''g'', ''h'', ''i'', ''j'', ''k'',
            ''l'', ''m'', ''n'', ''o'', ''p'', ''q'', ''r'', ''s'', ''t''] \<noteq>
     take 20 (row_order_keys (columns order_df ! 0))"
  by code_simp

lemma line_data_length: "line_data df x_col y_cols = Inr d \<Longrightarrow> length d \<le> 20"
  by (auto simp: line_data_def head_def split: sum.splits)

lemma line_chart_SomeD:
  assumes "line_chart config df detected = Inr (Some ch)"
  shows "line_data df (x_field ch) (y_fields ch) = Inr (line_table ch) \<and>
         1 < length (line_table ch)"
proof -
  from assms obtain line_conf where c: "get_chart_config config ''line_chart'' detected = Inr line_conf"
    by (cases "get_chart_config config ''line_chart'' detected") (simp_all add: line_chart_def)
  from assms c obtain enabled where e: "chart_enabled config ''line_chart'' = Inr enabled"
    by (cases "chart_enabled config ''line_chart''") (simp_all add: line_chart_def)
  from assms c e obtain x_col where x: "as_label (line_x_col line_conf detected) = Inr x_col"
    by (cases "as_label (line_x_col line_conf detected)")
       (auto simp: line_chart_def split: if_splits)
  from assms c e x obtain y_cols where y: "as_labels (line_y_cols line_conf detected) = Inr y_cols"
    by (cases "as_labels (line_y_cols line_conf detected)")
       (auto simp: line_chart_def split: if_splits)
  from assms c e x y obtain d where d: "line_data df x_col y_cols = Inr d"
    by (cases "line_data df x_col y_cols")
       (auto simp: line_chart_def split: if_splits)
  from assms c e x y d have "ch = \<lparr>line_table = d, x_field = x_col, y_fields = y_cols\<rparr> \<and>
      1 < length d"
    by (auto simp: line_chart_def split: if_splits)
  with d show ?thesis by simp
qed

lemma line_chart_skip:
  assumes "get_chart_config config ''line_chart'' detected = Inr line_conf"
    and "chart_enabled config ''line_chart'' = Inr enabled"
    and "as_label (line_x_col line_conf detected) = Inr x_col"
    and "as_labels (line_y_cols line_conf detected) = Inr y_cols"
    and "line_data df x_col y_cols = Inr d" and "length d < 2"
  shows "line_chart config df detected = Inr None"
  using assms by (simp add: line_chart_def)

lemma line_chart_one_numeric:
  assumes "get_chart_config config ''line_chart'' detected = Inr line_conf"
    and "chart_enabled config ''line_chart'' = Inr enabled"
    and "length (numeric detected) < 2"
  shows "line_chart config df detected = Inr None"
  using assms by (simp add: line_chart_def)

lemma default_line_conf:
  "get_chart_config default_config ''line_chart'' detected =
     Inr [(''enabled'', PBool True), (''x_column'', x_col_default detected),
          (''y_columns'', opt_str (best_numeric detected))]"
  "chart_enabled default_config ''line_chart'' = Inr (PBool True)"
  by (simp_all add: get_chart_config_def chart_enabled_def chart_fragment_def default_config_def
        dict_get_def resolve_value_def)


text \<open>
  Claim C7. A line chart that is built has at least 2 and at most 20 rows, which are the
  grouped rows of its x and y columns. Whenever the configuration resolves and the grouped
  rows number fewer than 2, the section returns without a chart and without an error; so
  it does when the profile has fewer than two numeric columns. The grouped rows never
  number more than 20, and they exist for an existing x column, existing y columns without
  text cells and an x label that is not a y label.
\<close>

theorem line_chart_skipped_or_capped:
  "(line_chart config df detected = Inr (Some ch) \<longrightarrow>
      2 \<le> length (line_table ch) \<and> length (line_table ch) \<le> 20 \<and>
      line_data df (x_field ch) (y_fields ch) = Inr (line_table ch)) \<and>
   (get_chart_config config ''line_chart'' detected = Inr line_conf \<and>
    chart_enabled config ''line_chart'' = Inr enabled \<and>
    as_label (line_x_col line_conf detected) = Inr x_col \<and>
    as_labels (line_y_cols line_conf detected) = Inr y_cols \<and>
    line_data df x_col y_cols = Inr d \<and> length d < 2 \<longrightarrow>
      line_chart config df detected = Inr None) \<and>
   (get_chart_config config ''line_chart'' detected = Inr line_conf \<and>
    chart_enabled config ''line_chart'' = Inr enabled \<and>
    length (numeric detected) < 2 \<longrightarrow>
      line_chart config df detected = Inr None) \<and>
   (line_data df x_col y_cols = Inr d \<longrightarrow> length d \<le> 20) \<and>
   (getitem df x_col = Inr kc \<and>
    (\<forall>y\<in>set y_cols. \<exists>yc. getitem df y = Inr yc \<and> (\<forall>x\<in>set (cells yc). \<forall>s. x \<noteq> Txt s)) \<and>
    x_col \<notin> set y_cols \<longrightarrow> (\<exists>rows. line_data df x_col y_cols = Inr rows))"
proof (intro conjI impI)
  assume a: "line_chart config df detected = Inr (Some ch)"
  from line_chart_SomeD [OF a] show "2 \<le> length (line_table ch)" by simp
  from line_chart_SomeD [OF a] show "line_data df (x_field ch) (y_fields ch) = Inr (line_table ch)"
    by simp
  then show "length (line_table ch) \<le> 20" by (rule line_data_length)
next
  assume "get_chart_config config ''line_chart'' detected = Inr line_conf \<and>
    chart_enabled config ''line_chart'' = Inr enabled \<and>
    as_label (line_x_col line_conf detected) = Inr x_col \<and>
    as_labels (line_y_cols line_conf detected) = Inr y_cols \<and>
    line_data df x_col y_cols = Inr d \<and> length d < 2"
  then show "line_chart config df detected = Inr None"
    using line_chart_skip [of config detected line_conf enabled x_col y_cols df d] by simp
next
  assume "get_chart_config config ''line_chart'' detected = Inr line_conf \<and>
    chart_enabled config ''line_chart'' = Inr enabled \<and>
    length (numeric detected) < 2"
  then show "line_chart config df detected = Inr None"
    using line_chart_one_numeric [of config detected line_conf enabled df] by simp
next
  assume "line_data df x_col y_cols = Inr d"
  then show "length d \<le> 20" by (rule line_data_length)
next
  assume "getitem df x_col = Inr kc \<and>
    (\<forall>y\<in>set y_cols. \<exists>yc. getitem df y = Inr yc \<and> (\<forall>x\<in>set (cells yc). \<forall>s. x \<noteq> Txt s)) \<and>
    x_col \<notin> set y_cols"
  then have 1: "getitem df x_col = Inr kc"
    and 2: "\<forall>y\<in>set y_cols. \<exists>yc. getitem df y = Inr yc \<and> (\<forall>x\<in>set (cells yc). \<forall>s. x \<noteq> Txt s)"
    and 3: "x_col \<notin> set y_cols" by simp_all
  from line_group_total [OF 1 2 3] obtain rows where "line_group df x_col y_cols = Inr rows" ..
  then show "\<exists>rows. line_data df x_col y_cols = Inr rows" by (simp add: line_data_def)
qed

lemma one_group_line_data: "line_data one_group_df ''k'' [''v''] = Inr [(Txt ''a'', [3])]"
  by code_simp

lemma scenario_line_chart_built:
  "case line_chart default_config scenario_df scenario_profile of
     Inr (Some ch) \<Rightarrow> True | _ \<Rightarrow> False"
  by code_simp

theorem line_chart_skipped_or_capped_witness:
  "line_chart default_config one_group_df one_group_profile = Inr None \<and>
   (\<exists>ch. line_chart default_config scenario_df scenario_profile = Inr (Some ch) \<and>
         2 \<le> length (line_table ch) \<and> length (line_table ch) \<le> 20)"
proof
  have h: "get_chart_config default_config ''line_chart'' one_group_profile =
        Inr [(''enabled'', PBool True), (''x_column'', x_col_default one_group_profile),
             (''y_columns'', opt_str (best_numeric one_group_profile))] \<and>
      chart_enabled default_config ''line_chart'' = Inr (PBool True) \<and>
      as_label (line_x_col [(''enabled'', PBool True),
                  (''x_column'', x_col_default one_group_profile),
                  (''y_columns'', opt_str (best_numeric one_group_profile))]
                 one_group_profile) = Inr ''k'' \<and>
      as_labels (line_y_cols [(''enabled'', PBool True),
                  (''x_column'', x_col_default one_group_profile),
                  (''y_columns'', opt_str (best_numeric one_group_profile))]
                 one_group_profile) = Inr [''v''] \<and>
      line_data one_group_df ''k'' [''v''] = Inr [(Txt ''a'', [3])] \<and>
      length [(Txt ''a'', [3::rat])] < 2"
    by (simp add: default_line_conf one_group_line_data)
       (simp add: line_x_col_def line_y_cols_def py_or_def dict_get_def x_col_default_def
          one_group_profile_def)
  show "line_chart default_config one_group_df one_group_profile = Inr None"
    by (rule line_chart_skipped_or_capped
              [THEN conjunct2, THEN conjunct1, THEN mp, OF h])
next
  from scenario_line_chart_built
  obtain ch where c: "line_chart default_config scenario_df scenario_profile = Inr (Some ch)"
    by (auto split: sum.splits option.splits)
  from line_chart_skipped_or_capped [THEN conjunct1, THEN mp, OF c]
  have "2 \<le> length (line_table ch) \<and> length (line_table ch) \<le> 20" by simp
  with c show "\<exists>ch. line_chart default_config scenario_df scenario_profile = Inr (Some ch) \<and>
         2 \<le> length (line_table ch) \<and> length (line_table ch) \<le> 20"
    by blast
qed

lemma nunique_card: "nunique c = card (set (cells c) - {NA})"
proof -
  have "set (filter (\<lambda>x. x \<noteq> NA) (cells c)) = set (cells c) - {NA}" by auto
  then show ?thesis by (simp add: nunique_def length_remdups_card_conv)
qed

lemma pick_pie_find:
  assumes "\<forall>col\<in>set cols. \<exists>c. getitem df col = Inr c"
  shows "pick_pie_column df cols =
           Inr (find (\<lambda>col. \<exists>c. getitem df col = Inr c \<and>
                        3 \<le> card (set (cells c) - {NA}) \<and> card (set (cells c) - {NA}) \<le> 8)
                     cols)"
  using assms
proof (induction cols)
  case Nil
  show ?case by simp
next
  case (Cons col cols)
  from Cons.prems obtain c where c: "getitem df col = Inr c" by auto
  from Cons have IH: "pick_pie_column df cols =
           Inr (find (\<lambda>col. \<exists>c. getitem df col = Inr c \<and>
                        3 \<le> card (set (cells c) - {NA}) \<and> card (set (cells c) - {NA}) \<le> 8)
                     cols)" by simp
  show ?case using c IH by (simp add: nunique_card)
qed

lemma pie_category_find:
  assumes "\<forall>col\<in>set (categorical detected). \<exists>c. getitem df col = Inr c"
  shows "pie_category df detected cat_col =
      Inr (if Some cat_col = best_categorical detected
           then (case find (\<lambda>col. \<exists>c. getitem df col = Inr c \<and>
                              3 \<le> card (set (cells c) - {NA}) \<and>
                              card (set (cells c) - {NA}) \<le> 8)
                           (categorical detected) of
                   Some col \<Rightarrow> col
                 | None \<Rightarrow> cat_col)
           else cat_col)"
  by (simp add: pie_category_def pick_pie_find [OF assms] split: option.splits)

lemma scenario_nunique:
  "nunique (columns scenario_df ! 0) = 20" "nunique (columns scenario_df ! 1) = 5"
  by code_simp+

lemma scenario_nunique_Suc: "nunique (columns scenario_df ! Suc 0) = 5"
  using scenario_nunique(2) by simp

lemma scenario_charts:
  "case bar_chart default_config scenario_df scenario_profile of
     Inr (Some ch) \<Rightarrow> key_field ch = ''region'' | _ \<Rightarrow> False"
  "case pie_chart default_config scenario_df scenario_profile of
     Inr (Some ch) \<Rightarrow> key_field ch = ''status'' | _ \<Rightarrow> False"
  by code_simp+

lemma scenario_detected: "auto_detect_columns scenario_df = Inr scenario_profile"
  by code_simp


text \<open>
  Claim C2. When every column of the profile's categorical list exists in the frame, the
  pie chart's category column is the configured one unless that equals the profile's best
  categorical column; then it is the first column of the categorical list whose number of
  distinct non-null values lies between 3 and 8, if there is one. The pie chart groups by
  the column so chosen, the bar chart by its configured category column. In scenario C
  (\<^verbatim>\<open>region\<close> with 20 distinct values, \<^verbatim>\<open>status\<close> with 5, both auto-selected) the bar chart
  groups by \<^verbatim>\<open>region\<close> and the pie chart by \<^verbatim>\<open>status\<close>.
\<close>

theorem pie_prefers_small_cardinality:
  "((\<forall>col\<in>set (categorical detected). \<exists>c. getitem df col = Inr c) \<longrightarrow>
      pie_category df detected cat_col =
        Inr (if Some cat_col = best_categorical detected
             then (case find (\<lambda>col. \<exists>c. getitem df col = Inr c \<and>
                                3 \<le> card (set (cells c) - {NA}) \<and>
                                card (set (cells c) - {NA}) \<le> 8)
                             (categorical detected) of
                     Some col \<Rightarrow> col
                   | None \<Rightarrow> cat_col)
             else cat_col)) \<and>
   (pie_chart config df detected = Inr (Some ch) \<longrightarrow>
      (\<exists>pie_conf cat0. get_chart_config config ''pie_chart'' detected = Inr pie_conf \<and>
         dict_get pie_conf ''category_column'' PNone = PStr cat0 \<and>
         pie_category df detected cat0 = Inr (key_field ch))) \<and>
   (bar_chart config df detected = Inr (Some ch') \<longrightarrow>
      (\<exists>bar_conf. get_chart_config config ''bar_chart'' detected = Inr bar_conf \<and>
         dict_get bar_conf ''category_column'' PNone = PStr (key_field ch'))) \<and>
   auto_detect_columns scenario_df = Inr scenario_profile \<and>
   card (set (cells (columns scenario_df ! 0)) - {NA}) = 20 \<and>
   card (set (cells (columns scenario_df ! 1)) - {NA}) = 5 \<and>
   (case bar_chart default_config scenario_df scenario_profile of
      Inr (Some ch) \<Rightarrow> key_field ch = ''region'' | _ \<Rightarrow> False) \<and>
   (case pie_chart default_config scenario_df scenario_profile of
      Inr (Some ch) \<Rightarrow> key_field ch = ''status'' | _ \<Rightarrow> False)"
proof (intro conjI impI)
  assume "\<forall>col\<in>set (categorical detected). \<exists>c. getitem df col = Inr c"
  then show "pie_category df detected cat_col =
        Inr (if Some cat_col = best_categorical detected
             then (case find (\<lambda>col. \<exists>c. getitem df col = Inr c \<and>
                                3 \<le> card (set (cells c) - {NA}) \<and>
                                card (set (cells c) - {NA}) \<le> 8)
                             (categorical detected) of
                     Some col \<Rightarrow> col
                   | None \<Rightarrow> cat_col)
             else cat_col)"
    by (rule pie_category_find)
next
  assume "pie_chart config df detected = Inr (Some ch)"
  from pie_chart_SomeD [OF this]
  obtain pie_conf cat0 where "get_chart_config config ''pie_chart'' detected = Inr pie_conf"
    and "dict_get pie_conf ''category_column'' PNone = PStr cat0"
    and "dict_get pie_conf ''value_column'' PNone = PStr (value_field ch)"
    and "pie_category df detected cat0 = Inr (key_field ch)"
    and "pie_data df (key_field ch) (value_field ch)
             (dict_get pie_conf ''aggregation'' (PStr ''sum''))
             (dict_get pie_conf ''top_n'' (PInt 10)) = Inr (table ch)"
    by (elim exE conjE)
  then show "\<exists>pie_conf cat0. get_chart_config config ''pie_chart'' detected = Inr pie_conf \<and>
         dict_get pie_conf ''category_column'' PNone = PStr cat0 \<and>
         pie_category df detected cat0 = Inr (key_field ch)"
    by (intro exI conjI)
next
  assume "bar_chart config df detected = Inr (Some ch')"
  from bar_chart_SomeD [OF this]
  obtain bar_conf where "get_chart_config config ''bar_chart'' detected = Inr bar_conf"
    and "dict_get bar_conf ''category_column'' PNone = PStr (key_field ch')"
    and "dict_get bar_conf ''value_column'' PNone = PStr (value_field ch')"
    and "bar_data df (key_field ch') (value_field ch')
             (dict_get bar_conf ''aggregation'' (PStr ''sum''))
             (dict_get bar_conf ''top_n'' (PInt 15)) = Inr (table ch')"
    by (elim exE conjE)
  then show "\<exists>bar_conf. get_chart_config config ''bar_chart'' detected = Inr bar_conf \<and>
         dict_get bar_conf ''category_column'' PNone = PStr (key_field ch')"
    by (intro exI conjI)
next
  show "auto_detect_columns scenario_df = Inr scenario_profile" by (rule scenario_detected)
  show "card (set (cells (columns scenario_df ! 0)) - {NA}) = 20"
    by (simp only: nunique_card [symmetric] scenario_nunique)
  show "card (set (cells (columns scenario_df ! 1)) - {NA}) = 5"
    by (simp only: nunique_card [symmetric] scenario_nunique)
  show "case bar_chart default_config scenario_df scenario_profile of
      Inr (Some ch) \<Rightarrow> key_field ch = ''region'' | _ \<Rightarrow> False"
    by (rule scenario_charts)
  show "case pie_chart default_config scenario_df scenario_profile of
      Inr (Some ch) \<Rightarrow> key_field ch = ''status'' | _ \<Rightarrow> False"
    by (rule scenario_charts)
qed

theorem pie_prefers_small_cardinality_witness:
  "pie_category scenario_df scenario_profile ''region'' = Inr ''status'' \<and>
   pie_category scenario_df scenario_profile ''status'' = Inr ''status'' \<and>
   pie_category scenario_df scenario_profile ''revenue'' = Inr ''revenue''"
proof -
  have h: "\<forall>col\<in>set (categorical scenario_profile). \<exists>c. getitem scenario_df col = Inr c"
    by (simp add: scenario_profile_def getitem_scenario)
  have f: "find (\<lambda>col. \<exists>c. getitem scenario_df col = Inr c \<and>
                                3 \<le> card (set (cells c) - {NA}) \<and>
                                card (set (cells c) - {NA}) \<le> 8)
                (categorical scenario_profile) = Some ''status''"
    by (simp add: scenario_profile_def getitem_scenario nunique_card [symmetric]
          scenario_nunique scenario_nunique_Suc)
  note t1 = pie_prefers_small_cardinality
             [where df = scenario_df and detected = scenario_profile and cat_col = "''region''",
              THEN conjunct1, THEN mp, OF h]
  note t2 = pie_prefers_small_cardinality
             [where df = scenario_df and detected = scenario_profile and cat_col = "''status''",
              THEN conjunct1, THEN mp, OF h]
  note t3 = pie_prefers_small_cardinality
             [where df = scenario_df and detected = scenario_profile and cat_col = "''revenue''",
              THEN conjunct1, THEN mp, OF h]
  show ?thesis
    unfolding t1 t2 t3 f by (simp add: scenario_profile_def)
qed

end
